(* ===== verification/Prelude.thy ===== *)
theory Prelude
  imports Main "HOL-Library.Word"
begin

text \<open>
  Prelude of the development: the machine types of the loader, results with an explicit panic,
  checked indexing and slicing, fixed-width integer encodings, and the codec interfaces that the
  components interpret on their own encoders and decoders.

  Conventions. A byte string (\<open>&[u8]\<close>, \<open>Vec<u8>\<close>, \<open>&str\<close>) is a list of 8-bit words; a fixed-size
  array that a library returns is a word of that width, read out with \<open>array_bytes\<close>. \<open>usize\<close>
  offsets are natural numbers: a slice has at most \<open>isize::MAX\<close> elements, and every offset the
  code computes exceeds a slice's length by less than 2^17, or is a product bounded by 8 * 2^32,
  so 64-bit offset arithmetic never wraps. Every other integer keeps its width.
\<close>

unbundle bit_operations_syntax

section \<open>Machine types\<close>

type_synonym u8 = "8 word"
type_synonym u16 = "16 word"
type_synonym u32 = "32 word"
type_synonym u64 = "64 word"
type_synonym bytes = "u8 list"

abbreviation lit :: "string \<Rightarrow> bytes" where
  "lit s \<equiv> map of_char s"

section \<open>Results with an explicit panic\<close>

text \<open>
  \<open>Ok\<close> and \<open>Err\<close> are the constructors of Rust's \<open>Result\<close>; \<open>Panic\<close> is the outcome of an index out
  of range, a slice out of range or a length mismatch in \<open>copy_from_slice\<close>. A function that
  returns \<open>Option\<close> and can index out of range has error type \<open>unit\<close>, with \<open>Err ()\<close> for \<open>None\<close>.
\<close>

datatype ('e, 'a) result = Ok 'a | Err 'e | Panic

type_synonym 'a opt = "(unit, 'a) result"

abbreviation none :: "'a opt" where
  "none \<equiv> Err ()"

named_theorems no_panic \<open>operations that never panic\<close>
named_theorems enc_simps \<open>encoders and decoders on concatenated bytes\<close>

text \<open>The \<open>?\<close> operator: continue with the value, or return the error.\<close>

primrec and_then :: "('e, 'a) result \<Rightarrow> ('a \<Rightarrow> ('e, 'b) result) \<Rightarrow> ('e, 'b) result" where
  "and_then (Ok x) f = f x"
| "and_then (Err e) f = Err e"
| "and_then Panic f = Panic"

primrec map_err :: "('e \<Rightarrow> 'f) \<Rightarrow> ('e, 'a) result \<Rightarrow> ('f, 'a) result" where
  "map_err g (Ok x) = Ok x"
| "map_err g (Err e) = Err (g e)"
| "map_err g Panic = Panic"

definition ok_or :: "'e \<Rightarrow> 'a opt \<Rightarrow> ('e, 'a) result" where
  "ok_or e r = map_err (\<lambda>_. e) r"

primrec from_option :: "'e \<Rightarrow> 'a option \<Rightarrow> ('e, 'a) result" where
  "from_option e None = Err e"
| "from_option e (Some x) = Ok x"

definition check :: "'e \<Rightarrow> bool \<Rightarrow> ('e, unit) result" where
  "check e c = (if c then Ok () else Err e)"

text \<open>A \<open>for\<close> loop that collects one value per iteration and stops at the first early return.\<close>

fun for_each :: "('a \<Rightarrow> ('e, 'b) result) \<Rightarrow> 'a list \<Rightarrow> ('e, 'b list) result" where
  "for_each f [] = Ok []"
| "for_each f (x # xs) = and_then (f x) (\<lambda>y. and_then (for_each f xs) (\<lambda>ys. Ok (y # ys)))"

lemma and_then_eq_Ok [simp]:
  "and_then r f = Ok y \<longleftrightarrow> (\<exists>x. r = Ok x \<and> f x = Ok y)"
  by (cases r) auto

lemma if_Err_eq_Ok: "(if c then Err e else r) = Ok x \<longleftrightarrow> \<not> c \<and> r = Ok x"
  by simp

lemma and_then_eq_Err:
  "and_then r f = Err e \<longleftrightarrow> r = Err e \<or> (\<exists>x. r = Ok x \<and> f x = Err e)"
  by (cases r) auto

lemma and_then_eq_Panic:
  "and_then r f = Panic \<longleftrightarrow> r = Panic \<or> (\<exists>x. r = Ok x \<and> f x = Panic)"
  by (cases r) auto

lemma and_then_cong [fundef_cong]:
  "r = r' \<Longrightarrow> (\<And>x. r' = Ok x \<Longrightarrow> f x = f' x) \<Longrightarrow> and_then r f = and_then r' f'"
  by (cases r') auto

lemma and_then_no_panic [no_panic]:
  "r \<noteq> Panic \<Longrightarrow> (\<And>x. r = Ok x \<Longrightarrow> f x \<noteq> Panic) \<Longrightarrow> and_then r f \<noteq> Panic"
  by (cases r) auto

lemma ok_or_simps [simp]:
  "ok_or e (Ok x) = Ok x" "ok_or e (Err u) = Err e" "ok_or e Panic = Panic"
  by (simp_all add: ok_or_def)

lemma ok_or_eq_Ok [simp]: "ok_or e r = Ok x \<longleftrightarrow> r = Ok x"
  by (cases r) auto

lemma ok_or_eq_Panic [simp]: "ok_or e r = Panic \<longleftrightarrow> r = Panic"
  by (cases r) auto

lemma map_err_eq_Ok [simp]: "map_err g r = Ok x \<longleftrightarrow> r = Ok x"
  by (cases r) auto

lemma map_err_eq_Panic [simp]: "map_err g r = Panic \<longleftrightarrow> r = Panic"
  by (cases r) auto

lemma from_option_eq_Ok [simp]: "from_option e r = Ok x \<longleftrightarrow> r = Some x"
  by (cases r) auto

lemma from_option_not_Panic [simp]: "from_option e r \<noteq> Panic"
  by (cases r) auto

lemma check_eq_Ok [simp]: "check e c = Ok u \<longleftrightarrow> c"
  by (simp add: check_def)

lemma check_not_Panic [simp]: "check e c \<noteq> Panic"
  by (simp add: check_def)

lemma check_simps [simp]: "check e True = Ok ()" "check e False = Err e"
  by (simp_all add: check_def)

lemma for_each_Ok:
  "(\<And>x. x \<in> set xs \<Longrightarrow> f x = Ok (g x)) \<Longrightarrow> for_each f xs = Ok (map g xs)"
  by (induction xs) auto

lemma for_each_eq_Ok:
  "for_each f xs = Ok ys \<longleftrightarrow> list_all2 (\<lambda>x y. f x = Ok y) xs ys"
  by (induction xs arbitrary: ys) (auto simp: list_all2_Cons1)

lemma for_each_length: "for_each f xs = Ok ys \<Longrightarrow> length ys = length xs"
  by (auto simp: for_each_eq_Ok dest: list_all2_lengthD)

lemma for_each_nth:
  "for_each f xs = Ok ys \<Longrightarrow> i < length xs \<Longrightarrow> f (xs ! i) = Ok (ys ! i)"
  by (auto simp: for_each_eq_Ok list_all2_conv_all_nth)

lemma for_each_no_panic [no_panic]:
  "(\<And>x. x \<in> set xs \<Longrightarrow> f x \<noteq> Panic) \<Longrightarrow> for_each f xs \<noteq> Panic"
proof (induction xs)
  case (Cons x xs)
  then show ?case by (cases "f x"; cases "for_each f xs") auto
qed simp

section \<open>Checked indexing and slicing\<close>

definition index_at :: "'a list \<Rightarrow> nat \<Rightarrow> ('e, 'a) result" where
  "index_at xs i = (if i < length xs then Ok (xs ! i) else Panic)"

text \<open>\<open>&xs[i..j]\<close>.\<close>

definition slice :: "'a list \<Rightarrow> nat \<Rightarrow> nat \<Rightarrow> ('e, 'a list) result" where
  "slice xs i j = (if i \<le> j \<and> j \<le> length xs then Ok (take (j - i) (drop i xs)) else Panic)"

text \<open>\<open>dst.copy_from_slice(xs)\<close> for a destination of \<open>n\<close> elements.\<close>

definition copy_from_slice :: "nat \<Rightarrow> 'a list \<Rightarrow> ('e, 'a list) result" where
  "copy_from_slice n xs = (if length xs = n then Ok xs else Panic)"

lemma index_at_eq_Ok [simp]: "index_at xs i = Ok x \<longleftrightarrow> i < length xs \<and> x = xs ! i"
  by (auto simp: index_at_def)

lemma index_at_in_range [simp]: "i < length xs \<Longrightarrow> index_at xs i = Ok (xs ! i)"
  by (simp add: index_at_def)

lemma index_at_eq_Panic [simp]: "index_at xs i = Panic \<longleftrightarrow> length xs \<le> i"
  by (auto simp: index_at_def)

lemma slice_eq_Ok [simp]:
  "slice xs i j = Ok ys \<longleftrightarrow> i \<le> j \<and> j \<le> length xs \<and> ys = take (j - i) (drop i xs)"
  by (auto simp: slice_def)

lemma slice_in_range [simp]:
  "i \<le> j \<Longrightarrow> j \<le> length xs \<Longrightarrow> slice xs i j = Ok (take (j - i) (drop i xs))"
  by (simp add: slice_def)

lemma slice_eq_Panic [simp]: "slice xs i j = Panic \<longleftrightarrow> \<not> (i \<le> j \<and> j \<le> length xs)"
  by (auto simp: slice_def)

lemma copy_from_slice_eq_Ok [simp]: "copy_from_slice n xs = Ok ys \<longleftrightarrow> length xs = n \<and> ys = xs"
  by (auto simp: copy_from_slice_def)

lemma copy_from_slice_eq_Panic [simp]: "copy_from_slice n xs = Panic \<longleftrightarrow> length xs \<noteq> n"
  by (auto simp: copy_from_slice_def)

lemma copy_from_slice_exact [simp]: "length xs = n \<Longrightarrow> copy_from_slice n xs = Ok xs"
  by (simp add: copy_from_slice_def)

section \<open>Little- and big-endian integers\<close>

primrec le_nat :: "bytes \<Rightarrow> nat" where
  "le_nat [] = 0"
| "le_nat (x # xs) = unat x + 256 * le_nat xs"

primrec to_le :: "nat \<Rightarrow> nat \<Rightarrow> bytes" where
  "to_le 0 v = []"
| "to_le (Suc n) v = of_nat v # to_le n (v div 256)"

definition be_nat :: "bytes \<Rightarrow> nat" where
  "be_nat xs = le_nat (rev xs)"

definition to_be :: "nat \<Rightarrow> nat \<Rightarrow> bytes" where
  "to_be n v = rev (to_le n v)"

text \<open>For evaluation on numerals.\<close>

lemma to_le_numeral:
  "to_le (numeral k) v = of_nat v # to_le (pred_numeral k) (v div 256)"
  by (simp only: numeral_eq_Suc to_le.simps)

lemma length_to_le [simp]: "length (to_le n v) = n"
  by (induction n arbitrary: v) auto

lemma length_to_be [simp]: "length (to_be n v) = n"
  by (simp add: to_be_def)

lemma to_le_eq_Nil [simp]: "to_le n v = [] \<longleftrightarrow> n = 0"
  by (cases n) auto

lemma unat_of_nat_u8: "unat (of_nat v :: u8) = v mod 256"
  by (simp add: unat_of_nat)

lemma le_nat_bound: "le_nat xs < 256 ^ length xs"
proof (induction xs)
  case (Cons x xs)
  have "unat x < 256"
    using unsigned_less [where ?'a = nat, of x] by simp
  with Cons show ?case by simp
qed simp

lemma le_nat_to_le: "le_nat (to_le n v) = v mod 256 ^ n"
proof (induction n arbitrary: v)
  case (Suc n)
  then show ?case
    by (simp add: unat_of_nat_u8 mod_mult2_eq)
qed simp

lemma to_le_le_nat: "length xs = n \<Longrightarrow> to_le n (le_nat xs) = xs"
proof (induction xs arbitrary: n)
  case (Cons x xs)
  have "unat x < 256"
    using unsigned_less [where ?'a = nat, of x] by simp
  with unat_of_nat_u8 [of "unat x + 256 * le_nat xs"]
  have "unat (of_nat (unat x + 256 * le_nat xs) :: u8) = unat x" by simp
  then have "(of_nat (unat x + 256 * le_nat xs) :: u8) = x"
    by (simp only: word_unat_eq_iff)
  with Cons \<open>unat x < 256\<close> show ?case by auto
qed simp

lemma le_nat_to_le_id: "v < 256 ^ n \<Longrightarrow> le_nat (to_le n v) = v"
  by (simp add: le_nat_to_le)

lemma be_nat_to_be: "be_nat (to_be n v) = v mod 256 ^ n"
  by (simp add: be_nat_def to_be_def le_nat_to_le)

lemma to_be_be_nat: "length xs = n \<Longrightarrow> to_be n (be_nat xs) = xs"
  by (simp add: be_nat_def to_be_def to_le_le_nat)

definition u32_le :: "bytes \<Rightarrow> u32" where
  "u32_le xs = of_nat (le_nat xs)"

definition u64_le :: "bytes \<Rightarrow> u64" where
  "u64_le xs = of_nat (le_nat xs)"

definition u16_be :: "bytes \<Rightarrow> u16" where
  "u16_be xs = of_nat (be_nat xs)"

definition u32_be :: "bytes \<Rightarrow> u32" where
  "u32_be xs = of_nat (be_nat xs)"

lemma unat_u32_le: "length xs = 4 \<Longrightarrow> unat (u32_le xs) = le_nat xs"
  using le_nat_bound [of xs] by (simp add: u32_le_def unat_of_nat)

lemma unat_u64_le: "length xs = 8 \<Longrightarrow> unat (u64_le xs) = le_nat xs"
  using le_nat_bound [of xs] by (simp add: u64_le_def unat_of_nat)

lemma unat_u16_be: "length xs = 2 \<Longrightarrow> unat (u16_be xs) = be_nat xs"
  using le_nat_bound [of "rev xs"] by (simp add: u16_be_def be_nat_def unat_of_nat)

lemma unat_u32_be: "length xs = 4 \<Longrightarrow> unat (u32_be xs) = be_nat xs"
  using le_nat_bound [of "rev xs"] by (simp add: u32_be_def be_nat_def unat_of_nat)

lemma u32_le_to_le [simp]: "u32_le (to_le 4 (unat (w :: u32))) = w"
  using unsigned_less [where ?'a = nat, of w] by (simp add: u32_le_def le_nat_to_le)

lemma u64_le_to_le [simp]: "u64_le (to_le 8 (unat (w :: u64))) = w"
  using unsigned_less [where ?'a = nat, of w] by (simp add: u64_le_def le_nat_to_le)

lemma u16_be_to_be [simp]: "u16_be (to_be 2 (unat (w :: u16))) = w"
  using unsigned_less [where ?'a = nat, of w] by (simp add: u16_be_def be_nat_to_be)

lemma u32_be_to_be [simp]: "u32_be (to_be 4 (unat (w :: u32))) = w"
  using unsigned_less [where ?'a = nat, of w] by (simp add: u32_be_def be_nat_to_be)

lemma to_le_u32_le: "length xs = 4 \<Longrightarrow> to_le 4 (unat (u32_le xs)) = xs"
  by (simp add: unat_u32_le to_le_le_nat)

text \<open>A fixed-size byte array returned by a library: a word of that width, least byte first.\<close>

definition array_bytes :: "'a::len word \<Rightarrow> bytes" where
  "array_bytes w = to_le (LENGTH('a) div 8) (unat w)"

lemma length_array_bytes [simp]: "length (array_bytes (w :: 'a::len word)) = LENGTH('a) div 8"
  by (simp add: array_bytes_def)

text \<open>\<open>u32::from_le_bytes([data[i], data[i + 1], data[i + 2], data[i + 3]])\<close>.\<close>

definition read_u32_le :: "bytes \<Rightarrow> nat \<Rightarrow> ('e, u32) result" where
  "read_u32_le xs i =
     and_then (index_at xs i) (\<lambda>b0. and_then (index_at xs (i + 1)) (\<lambda>b1.
     and_then (index_at xs (i + 2)) (\<lambda>b2. and_then (index_at xs (i + 3)) (\<lambda>b3.
     Ok (u32_le [b0, b1, b2, b3])))))"

text \<open>\<open>u16::from_be_bytes([data[i], data[i + 1]])\<close>.\<close>

definition read_u16_be :: "bytes \<Rightarrow> nat \<Rightarrow> ('e, u16) result" where
  "read_u16_be xs i =
     and_then (index_at xs i) (\<lambda>b0. and_then (index_at xs (i + 1)) (\<lambda>b1. Ok (u16_be [b0, b1])))"

lemma take_drop_Cons: "i < length xs \<Longrightarrow> take (Suc n) (drop i xs) = xs ! i # take n (drop (Suc i) xs)"
  by (simp flip: Cons_nth_drop_Suc)

lemma read_u32_le_in_range:
  "i + 4 \<le> length xs \<Longrightarrow> read_u32_le xs i = Ok (u32_le (take 4 (drop i xs)))"
  by (simp add: read_u32_le_def take_drop_Cons eval_nat_numeral)

lemma read_u16_be_in_range:
  "i + 2 \<le> length xs \<Longrightarrow> read_u16_be xs i = Ok (u16_be (take 2 (drop i xs)))"
  by (simp add: read_u16_be_def take_drop_Cons eval_nat_numeral)

section \<open>Codec interfaces\<close>

text \<open>
  What a user of an encoder and its decoder relies on. The components interpret \<open>codec\<close> on their
  own functions; \<open>canonical_codec\<close> also promises that nothing but an encoding is accepted.
\<close>

locale codec =
  fixes enc :: "'a \<Rightarrow> 'c" and dec :: "'c \<Rightarrow> ('e, 'a) result" and valid :: "'a \<Rightarrow> bool"
  assumes dec_enc: "valid x \<Longrightarrow> dec (enc x) = Ok x"
begin

lemma enc_inj: "valid x \<Longrightarrow> valid y \<Longrightarrow> enc x = enc y \<Longrightarrow> x = y"
  by (metis dec_enc result.inject(1))

lemma enc_inj_on: "inj_on enc {x. valid x}"
  by (rule inj_onI) (auto intro: enc_inj)

end

locale canonical_codec = codec +
  assumes dec_valid: "dec y = Ok x \<Longrightarrow> valid x"
    and enc_dec: "dec y = Ok x \<Longrightarrow> enc x = y"
begin

lemma dec_iff: "dec y = Ok x \<longleftrightarrow> valid x \<and> enc x = y"
  using dec_enc dec_valid enc_dec by auto

lemma dec_inj: "dec y = Ok x \<Longrightarrow> dec y' = Ok x \<Longrightarrow> y = y'"
  using enc_dec by auto

lemma enc_dec_image: "enc ` {x. valid x} = {y. \<exists>x. dec y = Ok x}"
  using dec_iff by auto

end

text \<open>Fixed-width little- and big-endian integers are canonical codecs.\<close>

interpretation u32_le_codec: canonical_codec
  "\<lambda>w::u32. to_le 4 (unat w)"
  "\<lambda>xs. and_then (copy_from_slice 4 xs) (\<lambda>ys. Ok (u32_le ys)) :: u32 opt"
  "\<lambda>_. True"
  by unfold_locales (auto simp: to_le_u32_le)

interpretation u64_le_codec: canonical_codec
  "\<lambda>w::u64. to_le 8 (unat w)"
  "\<lambda>xs. and_then (copy_from_slice 8 xs) (\<lambda>ys. Ok (u64_le ys)) :: u64 opt"
  "\<lambda>_. True"
  by unfold_locales (auto simp: unat_u64_le to_le_le_nat)

interpretation u16_be_codec: canonical_codec
  "\<lambda>w::u16. to_be 2 (unat w)"
  "\<lambda>xs. and_then (copy_from_slice 2 xs) (\<lambda>ys. Ok (u16_be ys)) :: u16 opt"
  "\<lambda>_. True"
  by unfold_locales (auto simp: unat_u16_be to_be_be_nat)

end
