(* ===== verification/Rust_Str.thy ===== *)
theory Rust_Str
  imports Prelude
begin

text \<open>
  The operations of Rust's \<open>str\<close> that the loader calls, on UTF-8 byte strings: \<open>split\<close>,
  \<open>split_once\<close>, \<open>split_whitespace\<close>, \<open>lines\<close>, \<open>trim\<close>, \<open>parse::<u64>\<close>, decimal formatting and
  \<open>String::from_utf8_lossy\<close>. The lemmas show that splitting and joining are inverse, that a
  printed number is parsed back, and that lossy decoding keeps ASCII text.
\<close>

section \<open>Splitting on a byte\<close>

text \<open>\<open>s.split(c)\<close> for an ASCII character: every piece, the empty ones included.\<close>

fun split_byte :: "u8 \<Rightarrow> bytes \<Rightarrow> bytes list" where
  "split_byte c [] = [[]]"
| "split_byte c (x # xs) =
     (if x = c then [] # split_byte c xs
      else (case split_byte c xs of [] \<Rightarrow> [[x]] | w # ws \<Rightarrow> (x # w) # ws))"

text \<open>\<open>s.split_once(c)\<close>: the text before and after the first occurrence.\<close>

fun split_once :: "u8 \<Rightarrow> bytes \<Rightarrow> (bytes \<times> bytes) option" where
  "split_once c [] = None"
| "split_once c (x # xs) =
     (if x = c then Some ([], xs)
      else map_option (\<lambda>(k, v). (x # k, v)) (split_once c xs))"

fun join_byte :: "u8 \<Rightarrow> bytes list \<Rightarrow> bytes" where
  "join_byte c [] = []"
| "join_byte c [w] = w"
| "join_byte c (w # ws) = w @ c # join_byte c ws"

definition starts_with :: "bytes \<Rightarrow> bytes \<Rightarrow> bool" where
  "starts_with s p \<longleftrightarrow> take (length p) s = p"

lemma starts_with_iff: "starts_with s p \<longleftrightarrow> (\<exists>q. s = p @ q)"
  unfolding starts_with_def by (metis append_eq_conv_conj append_take_drop_id)

lemma split_byte_not_Nil [simp]: "split_byte c s \<noteq> []"
  by (induction s) (auto split: list.splits)

lemma join_split: "join_byte c (split_byte c s) = s"
proof (induction s)
  case (Cons x xs)
  obtain w ws where w: "split_byte c xs = w # ws"
    by (cases "split_byte c xs") auto
  with Cons show ?case by (cases ws) auto
qed simp

lemma split_byte_no_sep: "c \<notin> set w \<Longrightarrow> split_byte c w = [w]"
  by (induction w) auto

lemma split_byte_append: "c \<notin> set w \<Longrightarrow> split_byte c (w @ c # s) = w # split_byte c s"
  by (induction w) auto

lemma split_join:
  "ws \<noteq> [] \<Longrightarrow> \<forall>w\<in>set ws. c \<notin> set w \<Longrightarrow> split_byte c (join_byte c ws) = ws"
  by (induction c ws rule: join_byte.induct) (auto simp: split_byte_no_sep split_byte_append)

lemma split_byte_pieces: "w \<in> set (split_byte c s) \<Longrightarrow> c \<notin> set w"
proof (induction s arbitrary: w)
  case (Cons x xs)
  then show ?case by (fastforce split: list.splits if_splits)
qed simp

lemma split_once_Some: "split_once c s = Some (k, v) \<Longrightarrow> s = k @ c # v \<and> c \<notin> set k"
  by (induction s arbitrary: k) (auto split: if_splits)

lemma split_once_append [simp]: "c \<notin> set k \<Longrightarrow> split_once c (k @ c # v) = Some (k, v)"
  by (induction k) auto

lemma split_once_None: "split_once c s = None \<longleftrightarrow> c \<notin> set s"
  by (induction s) auto

lemma starts_with_append [simp]: "starts_with (p @ s) p"
  by (simp add: starts_with_def)

section \<open>White space\<close>

text \<open>The UTF-8 encodings of the Unicode \<open>White_Space\<close> characters.\<close>

definition ws_chars :: "bytes list" where
  "ws_chars =
     [[0x09], [0x0A], [0x0B], [0x0C], [0x0D], [0x20], [0xC2, 0x85], [0xC2, 0xA0],
      [0xE1, 0x9A, 0x80], [0xE2, 0x80, 0x80], [0xE2, 0x80, 0x81], [0xE2, 0x80, 0x82],
      [0xE2, 0x80, 0x83], [0xE2, 0x80, 0x84], [0xE2, 0x80, 0x85], [0xE2, 0x80, 0x86],
      [0xE2, 0x80, 0x87], [0xE2, 0x80, 0x88], [0xE2, 0x80, 0x89], [0xE2, 0x80, 0x8A],
      [0xE2, 0x80, 0xA8], [0xE2, 0x80, 0xA9], [0xE2, 0x80, 0xAF], [0xE2, 0x81, 0x9F],
      [0xE3, 0x80, 0x80]]"

text \<open>The length of the first of the encodings \<open>cs\<close> that \<open>s\<close> starts with, 0 if none.\<close>

definition lead_len :: "bytes list \<Rightarrow> bytes \<Rightarrow> nat" where
  "lead_len cs s = (case find (starts_with s) cs of None \<Rightarrow> 0 | Some w \<Rightarrow> length w)"

abbreviation ws_len :: "bytes \<Rightarrow> nat" where
  "ws_len s \<equiv> lead_len ws_chars s"

fun strip_lead :: "bytes list \<Rightarrow> nat \<Rightarrow> bytes \<Rightarrow> bytes" where
  "strip_lead cs 0 s = s"
| "strip_lead cs (Suc n) s =
     (let k = lead_len cs s in if k = 0 then s else strip_lead cs n (drop k s))"

text \<open>\<open>s.trim()\<close>. Every step drops at least one byte, so the length of \<open>s\<close> is enough fuel.\<close>

definition trim :: "bytes \<Rightarrow> bytes" where
  "trim s =
     (let t = strip_lead ws_chars (length s) s
      in rev (strip_lead (map rev ws_chars) (length t) (rev t)))"

text \<open>The longest prefix with no white space in it.\<close>

fun take_word :: "bytes \<Rightarrow> bytes" where
  "take_word [] = []"
| "take_word (x # xs) = (if ws_len (x # xs) > 0 then [] else x # take_word xs)"

lemma length_take_word: "length (take_word s) \<le> length s"
  by (induction s) auto

lemma take_word_pos: "s \<noteq> [] \<Longrightarrow> ws_len s = 0 \<Longrightarrow> 0 < length (take_word s)"
  by (cases s) auto

function split_whitespace :: "bytes \<Rightarrow> bytes list" where
  "split_whitespace s =
     (if s = [] then []
      else if ws_len s > 0 then split_whitespace (drop (ws_len s) s)
      else take_word s # split_whitespace (drop (length (take_word s)) s))"
  by pat_completeness auto
termination
proof (relation "measure length", goal_cases)
  case (3 s)
  then show ?case
    using take_word_pos [of s] by (simp add: diff_less)
qed auto

declare split_whitespace.simps [simp del]

lemma split_whitespace_Nil [simp]: "split_whitespace [] = []"
  by (simp add: split_whitespace.simps)

text \<open>Every word is non-empty.\<close>

lemma split_whitespace_words: "w \<in> set (split_whitespace s) \<Longrightarrow> w \<noteq> []"
proof (induction s rule: split_whitespace.induct)
  case (1 s)
  then show ?case
    using take_word_pos [of s]
    by (subst (asm) (2) split_whitespace.simps) (auto split: if_splits)
qed

text \<open>A byte that starts no white-space encoding: any ASCII byte but tab to carriage return and space.\<close>

definition plain :: "u8 \<Rightarrow> bool" where
  "plain x \<longleftrightarrow> 32 < x \<and> x < 128"

lemma lead_len_reject:
  assumes "\<forall>w\<in>set cs. w \<noteq> [] \<and> hd w \<noteq> x"
  shows "lead_len cs (x # xs) = 0"
proof -
  have "\<not> starts_with (x # xs) w" if "w \<in> set cs" for w
    using assms that by (cases w) (auto simp: starts_with_def)
  then have "find (starts_with (x # xs)) cs = None"
    by (auto simp: find_None_iff)
  then show ?thesis by (simp add: lead_len_def)
qed

lemma ws_len_plain: "plain x \<Longrightarrow> ws_len (x # xs) = 0"
  by (rule lead_len_reject) (auto simp: plain_def ws_chars_def)

lemma ws_len_space: "ws_len (0x20 # xs) = 1"
  by (simp add: lead_len_def ws_chars_def starts_with_def)

lemma take_word_plain: "\<forall>x\<in>set w. plain x \<Longrightarrow> take_word (w @ 0x20 # s) = w"
  by (induction w) (auto simp: ws_len_plain ws_len_space)

lemma take_word_plain_end: "\<forall>x\<in>set w. plain x \<Longrightarrow> take_word w = w"
  by (induction w) (auto simp: ws_len_plain)

lemma split_whitespace_word:
  assumes "w \<noteq> []" and "\<forall>x\<in>set w. plain x"
  shows "split_whitespace (w @ 0x20 # s) = w # split_whitespace s"
proof -
  obtain x xs where w: "w = x # xs" using assms(1) by (cases w) auto
  have "ws_len (w @ 0x20 # s) = 0"
    using assms(2) by (simp add: w ws_len_plain)
  moreover have "take_word (w @ 0x20 # s) = w"
    using assms(2) by (rule take_word_plain)
  ultimately have "split_whitespace (w @ 0x20 # s) = w # split_whitespace (0x20 # s)"
    by (subst split_whitespace.simps) (simp add: w)
  also have "split_whitespace (0x20 # s) = split_whitespace s"
    by (subst split_whitespace.simps) (simp add: ws_len_space)
  finally show ?thesis .
qed

lemma split_whitespace_end:
  assumes "w \<noteq> []" and "\<forall>x\<in>set w. plain x"
  shows "split_whitespace w = [w]"
proof -
  obtain x xs where w: "w = x # xs" using assms(1) by (cases w) auto
  have "ws_len w = 0" using assms(2) by (simp add: w ws_len_plain)
  with assms show ?thesis
    by (subst split_whitespace.simps) (simp add: take_word_plain_end)
qed

text \<open>Trimming a text that has no white space at either end changes nothing.\<close>

lemma strip_lead_stop: "lead_len cs s = 0 \<Longrightarrow> strip_lead cs n s = s"
  by (cases n) auto

lemma strip_lead_Nil [simp]: "[] \<notin> set cs \<Longrightarrow> strip_lead cs n [] = []"
proof -
  assume "[] \<notin> set cs"
  then have "find (starts_with []) cs = None"
    by (auto simp: find_None_iff starts_with_def)
  then show ?thesis by (intro strip_lead_stop) (simp add: lead_len_def)
qed

lemma lead_len_rev_plain: "plain x \<Longrightarrow> lead_len (map rev ws_chars) (x # xs) = 0"
  by (rule lead_len_reject) (auto simp: plain_def ws_chars_def)

lemma trim_plain:
  assumes "\<forall>x\<in>set s. plain x"
  shows "trim s = s"
proof (cases s)
  case Nil
  then show ?thesis by (simp add: trim_def Let_def)
next
  case (Cons x xs)
  then have "strip_lead ws_chars (length s) s = s"
    using assms by (intro strip_lead_stop) (simp add: ws_len_plain)
  moreover obtain y ys where r: "rev s = y # ys" using Cons by (cases "rev s") auto
  moreover have "plain y" using assms r by (metis in_set_conv_decomp_first list.set_intros(1) set_rev)
  ultimately show ?thesis
    by (simp add: trim_def Let_def strip_lead_stop lead_len_rev_plain flip: r)
       (metis lead_len_rev_plain r rev_rev_ident strip_lead_stop)
qed

text \<open>A trailing line feed, as in a hash file, is trimmed away.\<close>

lemma trim_plain_newline:
  assumes "\<forall>x\<in>set s. plain x" and "s \<noteq> []"
  shows "trim (s @ [0x0A]) = s"
proof -
  obtain x xs where s: "s = x # xs" using assms(2) by (cases s) auto
  obtain y ys where r: "rev s = y # ys" using s by (cases "rev s") auto
  have py: "plain y" using assms r by (metis in_set_conv_decomp_first list.set_intros(1) set_rev)
  have "strip_lead ws_chars (length (s @ [0x0A])) (s @ [0x0A]) = s @ [0x0A]"
    using assms by (intro strip_lead_stop) (simp add: s ws_len_plain)
  moreover have "lead_len (map rev ws_chars) (0x0A # rev s) = 1"
    by (simp add: lead_len_def ws_chars_def starts_with_def)
  moreover have "strip_lead (map rev ws_chars) (length s) (rev s) = rev s"
    using py by (intro strip_lead_stop) (simp add: r lead_len_rev_plain)
  ultimately show ?thesis
    by (simp add: trim_def Let_def)
qed

section \<open>Lines\<close>

text \<open>
  \<open>s.lines()\<close>: pieces that end in a line feed, each without it and without a carriage return right
  before it; a last piece without a line feed is kept whole, and an empty one is no line.
\<close>

definition strip_cr :: "bytes \<Rightarrow> bytes" where
  "strip_cr w = (if w \<noteq> [] \<and> last w = 0x0D then butlast w else w)"

fun str_lines_acc :: "bytes \<Rightarrow> bytes \<Rightarrow> bytes list" where
  "str_lines_acc acc [] = (if acc = [] then [] else [rev acc])"
| "str_lines_acc acc (x # xs) =
     (if x = 0x0A then strip_cr (rev acc) # str_lines_acc [] xs else str_lines_acc (x # acc) xs)"

definition str_lines :: "bytes \<Rightarrow> bytes list" where
  "str_lines s = str_lines_acc [] s"

lemma str_lines_acc_line:
  "0x0A \<notin> set w \<Longrightarrow> str_lines_acc acc (w @ 0x0A # s) = strip_cr (rev acc @ w) # str_lines s"
  by (induction w arbitrary: acc) (auto simp: str_lines_def)

lemma str_lines_line: "0x0A \<notin> set w \<Longrightarrow> str_lines (w @ 0x0A # s) = strip_cr w # str_lines s"
  by (simp add: str_lines_def str_lines_acc_line)

lemma str_lines_crlf:
  "0x0A \<notin> set w \<Longrightarrow> str_lines (w @ 0x0D # 0x0A # s) = w # str_lines s"
  using str_lines_line [of "w @ [0x0D]" s] by (simp add: strip_cr_def)

section \<open>Decimal numbers\<close>

definition is_digit :: "u8 \<Rightarrow> bool" where
  "is_digit x \<longleftrightarrow> 0x30 \<le> x \<and> x \<le> 0x39"

definition digit_val :: "u8 \<Rightarrow> nat" where
  "digit_val x = unat x - 0x30"

definition digits_val :: "bytes \<Rightarrow> nat" where
  "digits_val s = foldl (\<lambda>v x. 10 * v + digit_val x) 0 s"

text \<open>
  \<open>s.parse::<u64>().ok()\<close>: an optional plus sign before at least one digit, nothing else, and a
  value that fits; every other text (empty, a lone sign, a minus sign, a digit too many) fails.
\<close>

definition parse_u64 :: "bytes \<Rightarrow> u64 option" where
  "parse_u64 s =
     (let d = (case s of [] \<Rightarrow> [] | x # xs \<Rightarrow> if x = 0x2B \<and> xs \<noteq> [] then xs else s)
      in if d \<noteq> [] \<and> list_all is_digit d \<and> digits_val d < 2 ^ 64
         then Some (of_nat (digits_val d)) else None)"

text \<open>The decimal text of an unsigned integer, as \<open>{}\<close> prints it.\<close>

fun fmt_nat :: "nat \<Rightarrow> bytes" where
  "fmt_nat n = (if n < 10 then [] else fmt_nat (n div 10)) @ [of_nat (0x30 + n mod 10)]"

declare fmt_nat.simps [simp del]

lemma is_digit_of_nat: "d < 10 \<Longrightarrow> is_digit (of_nat (0x30 + d))"
  by (simp only: is_digit_def word_le_nat_alt unat_of_nat_u8) simp

lemma digit_val_of_nat: "d < 10 \<Longrightarrow> digit_val (of_nat (0x30 + d)) = d"
  by (simp only: digit_val_def unat_of_nat_u8) simp

lemma fmt_nat_not_Nil [simp]: "fmt_nat n \<noteq> []"
  by (subst fmt_nat.simps) simp

lemma fmt_nat_digits: "list_all is_digit (fmt_nat n)"
proof (induction n rule: fmt_nat.induct)
  case (1 n)
  then show ?case
    by (subst fmt_nat.simps) (auto simp del: of_nat_add intro: is_digit_of_nat)
qed

lemma digits_val_fmt_nat: "digits_val (fmt_nat n) = n"
proof (induction n rule: fmt_nat.induct)
  case (1 n)
  then show ?case
    by (subst fmt_nat.simps)
       (auto simp: digits_val_def digit_val_of_nat simp del: of_nat_add)
qed

lemma fmt_nat_hd: "fmt_nat n = x # xs \<Longrightarrow> x \<noteq> 0x2B"
  using fmt_nat_digits [of n] by (auto simp: is_digit_def word_le_nat_alt)

lemma parse_u64_digits:
  assumes "s \<noteq> []" and "list_all is_digit s" and "digits_val s < 2 ^ 64"
  shows "parse_u64 s = Some (of_nat (digits_val s))"
proof -
  obtain x xs where s: "s = x # xs" using assms(1) by (cases s) auto
  then have "x \<noteq> 0x2B" using assms(2) by (auto simp: is_digit_def word_le_nat_alt)
  with assms show ?thesis by (simp add: parse_u64_def s)
qed

lemma parse_fmt_u64: "parse_u64 (fmt_nat (unat (w :: u64))) = Some w"
  using unsigned_less [where ?'a = nat, of w]
  by (subst parse_u64_digits) (simp_all add: fmt_nat_digits digits_val_fmt_nat)

text \<open>The printed form and the parsed value of a \<open>u64\<close> are a codec.\<close>

interpretation u64_text: codec
  "\<lambda>w. fmt_nat (unat w)" "\<lambda>s. from_option () (parse_u64 s)" "\<lambda>_. True"
  by unfold_locales (simp add: parse_fmt_u64)

section \<open>Characters\<close>

definition is_hexdigit :: "u8 \<Rightarrow> bool" where
  "is_hexdigit x \<longleftrightarrow> is_digit x \<or> (0x41 \<le> x \<and> x \<le> 0x46) \<or> (0x61 \<le> x \<and> x \<le> 0x66)"

definition replace_byte :: "u8 \<Rightarrow> u8 \<Rightarrow> bytes \<Rightarrow> bytes" where
  "replace_byte x y s = map (\<lambda>z. if z = x then y else z) s"

lemma replace_byte_gone: "x \<noteq> y \<Longrightarrow> x \<notin> set (replace_byte x y s)"
  by (auto simp: replace_byte_def)

lemma plain_hexdigit: "is_hexdigit x \<Longrightarrow> plain x"
  by (auto simp: is_hexdigit_def is_digit_def plain_def word_le_nat_alt word_less_nat_alt)

lemma plain_digit: "is_digit x \<Longrightarrow> plain x"
  by (rule plain_hexdigit) (simp add: is_hexdigit_def)

section \<open>Lossy UTF-8 decoding\<close>

text \<open>
  One step of \<open>String::from_utf8_lossy\<close> on a non-empty input: how many bytes it inspects, and
  whether they are one well-formed character. A byte past the end reads as 0, which continues no
  character.
\<close>

definition utf8_get :: "bytes \<Rightarrow> nat \<Rightarrow> u8" where
  "utf8_get s i = (if i < length s then s ! i else 0)"

definition utf8_cont :: "u8 \<Rightarrow> bool" where
  "utf8_cont x \<longleftrightarrow> 0x80 \<le> x \<and> x \<le> 0xBF"

definition utf8_second3 :: "u8 \<Rightarrow> u8 \<Rightarrow> bool" where
  "utf8_second3 x y \<longleftrightarrow>
     (x = 0xE0 \<and> 0xA0 \<le> y \<and> y \<le> 0xBF) \<or> (x = 0xED \<and> 0x80 \<le> y \<and> y \<le> 0x9F) \<or>
     (x \<noteq> 0xE0 \<and> x \<noteq> 0xED \<and> utf8_cont y)"

definition utf8_second4 :: "u8 \<Rightarrow> u8 \<Rightarrow> bool" where
  "utf8_second4 x y \<longleftrightarrow>
     (x = 0xF0 \<and> 0x90 \<le> y \<and> y \<le> 0xBF) \<or> (x = 0xF4 \<and> 0x80 \<le> y \<and> y \<le> 0x8F) \<or>
     (x \<noteq> 0xF0 \<and> x \<noteq> 0xF4 \<and> utf8_cont y)"

definition utf8_step :: "bytes \<Rightarrow> nat \<times> bool" where
  "utf8_step s =
     (let x = utf8_get s 0; y = utf8_get s 1; z = utf8_get s 2; w = utf8_get s 3
      in if x < 0x80 then (1, True)
         else if 0xC2 \<le> x \<and> x \<le> 0xDF then (if utf8_cont y then (2, True) else (1, False))
         else if 0xE0 \<le> x \<and> x \<le> 0xEF then
           (if \<not> utf8_second3 x y then (1, False)
            else if \<not> utf8_cont z then (2, False) else (3, True))
         else if 0xF0 \<le> x \<and> x \<le> 0xF4 then
           (if \<not> utf8_second4 x y then (1, False)
            else if \<not> utf8_cont z then (2, False)
            else if \<not> utf8_cont w then (3, False) else (4, True))
         else (1, False))"

lemma utf8_step_pos: "0 < fst (utf8_step s)"
  by (simp add: utf8_step_def Let_def)

function from_utf8_lossy :: "bytes \<Rightarrow> bytes" where
  "from_utf8_lossy s =
     (if s = [] then []
      else (if snd (utf8_step s) then take (fst (utf8_step s)) s else [0xEF, 0xBF, 0xBD])
           @ from_utf8_lossy (drop (fst (utf8_step s)) s))"
  by pat_completeness auto
termination
  by (relation "measure length") (auto simp: diff_less utf8_step_pos)

declare from_utf8_lossy.simps [simp del]

lemma from_utf8_lossy_Nil [simp]: "from_utf8_lossy [] = []"
  by (simp add: from_utf8_lossy.simps)

lemma from_utf8_lossy_ascii: "x < 0x80 \<Longrightarrow> from_utf8_lossy (x # xs) = x # from_utf8_lossy xs"
  by (subst from_utf8_lossy.simps) (simp add: utf8_step_def utf8_get_def)

text \<open>ASCII text decodes to itself.\<close>

lemma from_utf8_lossy_id: "\<forall>x\<in>set s. x < 0x80 \<Longrightarrow> from_utf8_lossy s = s"
  by (induction s) (auto simp: from_utf8_lossy_ascii)

lemma from_utf8_lossy_append: "\<forall>x\<in>set s. x < 0x80 \<Longrightarrow> from_utf8_lossy (s @ t) = s @ from_utf8_lossy t"
  by (induction s) (auto simp: from_utf8_lossy_ascii)

text \<open>\<open>str::from_utf8\<close>: the text is accepted when every step is a character.\<close>

function valid_utf8 :: "bytes \<Rightarrow> bool" where
  "valid_utf8 s =
     (if s = [] then True
      else if snd (utf8_step s) then valid_utf8 (drop (fst (utf8_step s)) s) else False)"
  by pat_completeness auto
termination
  by (relation "measure length") (auto simp: diff_less utf8_step_pos)

declare valid_utf8.simps [simp del]

lemma from_utf8_lossy_valid: "valid_utf8 s \<Longrightarrow> from_utf8_lossy s = s"
proof (induction s rule: valid_utf8.induct)
  case (1 s)
  then show ?case
    by (subst from_utf8_lossy.simps, subst (asm) (2) valid_utf8.simps) (auto split: if_splits)
qed

end
