(* ===== verification/Config.thy ===== *)
theory Config
  imports Prelude
begin

text \<open>
  The hard-coded constants of \<open>src/config.rs\<close>: the release URLs, the paths, the trusted signing key
  and the numeric limits, by the names the code gives them.
\<close>

definition PUBLIC_KEY_BYTES :: bytes where
  "PUBLIC_KEY_BYTES =
     [0x04, 0xf0, 0x7c, 0x7f, 0x7c, 0xb0, 0x87, 0x82, 0x38, 0x1d, 0x72, 0x91, 0xf0, 0xcc, 0xc2, 0xcd,
      0xa4, 0x8c, 0x6b, 0x06, 0x21, 0xdc, 0x73, 0x1a, 0xf0, 0x83, 0x62, 0xcf, 0xfc, 0x97, 0x89, 0x9d,
      0xc1, 0x06, 0xd8, 0x44, 0x12, 0x50, 0xa3, 0xca, 0x41, 0xf0, 0x20, 0xd8, 0xfd, 0x0f, 0x41, 0xc6,
      0x19, 0xe9, 0x11, 0x76, 0x14, 0x26, 0xd8, 0x23, 0xe9, 0xb0, 0xb0, 0xc8, 0x8c, 0x94, 0x73, 0xb0,
      0xe7, 0xd5, 0x9c, 0xce, 0x0f, 0x45, 0xfb, 0x3d, 0x55, 0xa5, 0x9b, 0x0b, 0xb4, 0xec, 0xea, 0x5d,
      0xb4, 0x35, 0x42, 0x3a, 0x43, 0xb0, 0x07, 0x4a, 0x30, 0x2b, 0xba, 0x9d, 0xb6, 0x24, 0x52, 0xff,
      0x0f]"

definition BINARY_URL :: bytes where
  "BINARY_URL =
     lit ''https://github.com/deadrouter-ai/the-server/releases/latest/download/the_server''"

definition SIGNATURE_URL :: bytes where
  "SIGNATURE_URL =
     lit ''https://github.com/deadrouter-ai/the-server/releases/latest/download/the_server.sig''"

definition HASH_URL :: bytes where
  "HASH_URL =
     lit ''https://github.com/deadrouter-ai/the-server/releases/latest/download/the_server_hash.txt''"

definition PAYLOAD_DIR :: bytes where
  "PAYLOAD_DIR = lit ''/run/payload''"

definition TARGET_PATH :: bytes where
  "TARGET_PATH = lit ''/run/payload/the_server''"

definition ATTESTATION_PORT :: u16 where
  "ATTESTATION_PORT = 8080"

definition MAX_DOWNLOAD_RETRIES :: nat where
  "MAX_DOWNLOAD_RETRIES = 5"

definition RETRY_DELAY_SECS :: nat where
  "RETRY_DELAY_SECS = 3"

definition REQUEST_TIMEOUT_SECS :: nat where
  "REQUEST_TIMEOUT_SECS = 120"

definition NETWORK_SETTLE_SECS :: nat where
  "NETWORK_SETTLE_SECS = 5"

definition MAX_CONSECUTIVE_ERRORS :: u32 where
  "MAX_CONSECUTIVE_ERRORS = 10"

end
