(* ===== verification/Rt_Message.thy ===== *)
theory Rt_Message
  imports Prelude
begin

text \<open>
  The Roughtime tag-value message of \<open>src/time.rs\<close> (\<open>RtMessage::parse\<close> and \<open>RtMessage::get\<close>): a
  count, the end offsets of all values but the last, the tags, then the values. The code only
  parses; \<open>rt_encode\<close> and \<open>rt_wf\<close> are the abstract wire format, and the parser is shown to accept
  exactly the encodings of well-formed messages, each as the message it encodes.
\<close>

section \<open>Tags\<close>

definition TAG_NONC :: u32 where "TAG_NONC = 0x434e4f4e"
definition TAG_PAD :: u32 where "TAG_PAD = 0xff444150"
definition TAG_CERT :: u32 where "TAG_CERT = 0x54524543"
definition TAG_SIG :: u32 where "TAG_SIG = 0x00474953"
definition TAG_SREP :: u32 where "TAG_SREP = 0x50455253"
definition TAG_DELE :: u32 where "TAG_DELE = 0x454c4544"
definition TAG_PUBK :: u32 where "TAG_PUBK = 0x4b425550"
definition TAG_MINT :: u32 where "TAG_MINT = 0x544e494d"
definition TAG_MAXT :: u32 where "TAG_MAXT = 0x5458414d"
definition TAG_ROOT :: u32 where "TAG_ROOT = 0x544f4f52"
definition TAG_MIDP :: u32 where "TAG_MIDP = 0x5044494d"
definition TAG_RADI :: u32 where "TAG_RADI = 0x49444152"
definition TAG_INDX :: u32 where "TAG_INDX = 0x58444e49"
definition TAG_PATH :: u32 where "TAG_PATH = 0x48544150"

lemmas tag_defs =
  TAG_NONC_def TAG_PAD_def TAG_CERT_def TAG_SIG_def TAG_SREP_def TAG_DELE_def TAG_PUBK_def
  TAG_MINT_def TAG_MAXT_def TAG_ROOT_def TAG_MIDP_def TAG_RADI_def TAG_INDX_def TAG_PATH_def

text \<open>The tag constants are the little-endian readings of the four characters their comments name.\<close>

lemma tag_bytes:
  "to_le 4 (unat TAG_NONC) = lit ''NONC''" "to_le 4 (unat TAG_PAD) = lit ''PAD'' @ [0xff]"
  "to_le 4 (unat TAG_CERT) = lit ''CERT''" "to_le 4 (unat TAG_SIG) = lit ''SIG'' @ [0]"
  "to_le 4 (unat TAG_SREP) = lit ''SREP''" "to_le 4 (unat TAG_DELE) = lit ''DELE''"
  "to_le 4 (unat TAG_PUBK) = lit ''PUBK''" "to_le 4 (unat TAG_MINT) = lit ''MINT''"
  "to_le 4 (unat TAG_MAXT) = lit ''MAXT''" "to_le 4 (unat TAG_ROOT) = lit ''ROOT''"
  "to_le 4 (unat TAG_MIDP) = lit ''MIDP''" "to_le 4 (unat TAG_RADI) = lit ''RADI''"
  "to_le 4 (unat TAG_INDX) = lit ''INDX''" "to_le 4 (unat TAG_PATH) = lit ''PATH''"
  by (simp_all add: tag_defs to_le_numeral)

section \<open>The parser and the lookup\<close>

record rt_message =
  rt_tags :: "u32 list"
  rt_values :: "bytes list"

text \<open>The end of value \<open>i\<close>: the next offset, or the end of the data for the last one.\<close>

definition value_end :: "nat list \<Rightarrow> nat \<Rightarrow> nat \<Rightarrow> nat \<Rightarrow> nat opt" where
  "value_end offsets num_tags values_len i =
     (if i + 1 < num_tags then index_at offsets (i + 1) else Ok values_len)"

definition check_value :: "nat list \<Rightarrow> nat \<Rightarrow> nat \<Rightarrow> nat \<Rightarrow> unit opt" where
  "check_value offsets num_tags values_len i =
     and_then (index_at offsets i) (\<lambda>start.
     and_then (value_end offsets num_tags values_len i) (\<lambda>end'.
     if start > end' \<or> end' > values_len then none
     else if start mod 4 \<noteq> 0 \<or> end' mod 4 \<noteq> 0 then none
     else Ok ()))"

definition cut_value :: "nat list \<Rightarrow> nat \<Rightarrow> bytes \<Rightarrow> nat \<Rightarrow> nat \<Rightarrow> bytes opt" where
  "cut_value offsets num_tags values_data values_len i =
     and_then (index_at offsets i) (\<lambda>start.
     and_then (value_end offsets num_tags values_len i) (\<lambda>end'.
     slice values_data start end'))"

definition rt_parse :: "bytes \<Rightarrow> rt_message opt" where
  "rt_parse data =
     (if length data < 4 then none else
      and_then (read_u32_le data 0) (\<lambda>n. let num_tags = unat n in
      if num_tags = 0 then none else
      let header_len = 8 * num_tags in
      if length data < header_len then none else
      and_then (for_each (\<lambda>i. read_u32_le data (4 + i * 4)) [0..<num_tags - 1]) (\<lambda>offs.
      let offsets = 0 # map unat offs; tags_start = 4 + (num_tags - 1) * 4 in
      and_then (for_each (\<lambda>i. read_u32_le data (tags_start + i * 4)) [0..<num_tags]) (\<lambda>tags.
      let values_start = 8 * num_tags; values_len = length data - values_start in
      and_then (slice data values_start (length data)) (\<lambda>values_data.
      and_then (for_each (check_value offsets num_tags values_len) [0..<num_tags]) (\<lambda>_.
      and_then (for_each (cut_value offsets num_tags values_data values_len) [0..<num_tags])
        (\<lambda>values. Ok \<lparr>rt_tags = tags, rt_values = values\<rparr>)))))))"

text \<open>The loop of \<open>get\<close>: the first position with the tag; its value is indexed by that position.\<close>

fun rt_get_from :: "nat \<Rightarrow> u32 list \<Rightarrow> bytes list \<Rightarrow> u32 \<Rightarrow> bytes opt" where
  "rt_get_from i [] values tag = none"
| "rt_get_from i (t # ts) values tag =
     (if t = tag then index_at values i else rt_get_from (Suc i) ts values tag)"

definition rt_get :: "rt_message \<Rightarrow> u32 \<Rightarrow> bytes opt" where
  "rt_get m tag = rt_get_from 0 (rt_tags m) (rt_values m) tag"

section \<open>The wire format\<close>

fun starts :: "nat \<Rightarrow> bytes list \<Rightarrow> nat list" where
  "starts k [] = []"
| "starts k (v # vs) = k # starts (k + length v) vs"

primrec le32s :: "nat list \<Rightarrow> bytes" where
  "le32s [] = []"
| "le32s (n # ns) = to_le 4 n @ le32s ns"

definition rt_encode :: "rt_message \<Rightarrow> bytes" where
  "rt_encode m =
     to_le 4 (length (rt_tags m)) @ le32s (tl (starts 0 (rt_values m))) @
     le32s (map unat (rt_tags m)) @ concat (rt_values m)"

definition rt_wf :: "rt_message \<Rightarrow> bool" where
  "rt_wf m \<longleftrightarrow>
     rt_tags m \<noteq> [] \<and> length (rt_tags m) = length (rt_values m) \<and> length (rt_tags m) < 2 ^ 32 \<and>
     list_all (\<lambda>v. length v mod 4 = 0) (rt_values m) \<and>
     list_all (\<lambda>k. k < 2 ^ 32) (starts 0 (rt_values m))"

section \<open>Reading blocks of integers\<close>

fun words :: "nat \<Rightarrow> bytes \<Rightarrow> u32 list" where
  "words 0 xs = []"
| "words (Suc n) xs = u32_le (take 4 xs) # words n (drop 4 xs)"

lemma length_words [simp]: "length (words n xs) = n"
  by (induction n arbitrary: xs) auto

lemma for_each_upt_Suc:
  "for_each f [0..<Suc n] =
     and_then (f 0) (\<lambda>y. and_then (for_each (\<lambda>i. f (Suc i)) [0..<n]) (\<lambda>ys. Ok (y # ys)))"
proof -
  have "for_each f (map Suc is) = for_each (\<lambda>i. f (Suc i)) is" for "is"
    by (induction "is") auto
  then show ?thesis
    by (simp add: upt_conv_Cons flip: map_Suc_upt del: upt_Suc)
qed

lemma read_block:
  "k + 4 * n \<le> length xs \<Longrightarrow>
     for_each (\<lambda>i. read_u32_le xs (k + i * 4)) [0..<n] = (Ok (words n (drop k xs)) :: u32 list opt)"
proof (induction n arbitrary: k)
  case (Suc n)
  have "for_each (\<lambda>i. read_u32_le xs (k + Suc i * 4)) [0..<n] =
      (Ok (words n (drop (k + 4) xs)) :: u32 list opt)"
    using Suc.IH [of "k + 4"] Suc.prems by (simp add: ac_simps)
  with Suc.prems show ?case
    by (subst for_each_upt_Suc) (simp add: read_u32_le_in_range ac_simps)
qed simp

lemma le32s_words: "4 * n \<le> length xs \<Longrightarrow> le32s (map unat (words n xs)) = take (4 * n) xs"
proof (induction n arbitrary: xs)
  case (Suc n)
  then have "le32s (map unat (words n (drop 4 xs))) = take (4 * n) (drop 4 xs)" by simp
  moreover have "to_le 4 (unat (u32_le (take 4 xs))) = take 4 xs"
    using Suc.prems by (intro to_le_u32_le) simp
  moreover have "take (4 * Suc n) xs = take 4 xs @ take (4 * n) (drop 4 xs)"
    by (simp flip: take_add)
  ultimately show ?case by simp
qed simp

lemma words_le32s: "words (length ns) (le32s ns @ xs) = map of_nat ns"
  by (induction ns) (auto simp: u32_le_def le_nat_to_le word_of_nat_eq_iff take_bit_eq_mod)

lemma length_le32s [simp]: "length (le32s ns) = 4 * length ns"
  by (induction ns) auto

lemma drop_le32s: "length ns = n \<Longrightarrow> drop (4 * n) (le32s ns @ xs) = xs"
  by simp

section \<open>Offsets\<close>

text \<open>Recursive forms of the offset check and of the cutting.\<close>

fun chain :: "nat list \<Rightarrow> nat \<Rightarrow> bool" where
  "chain [] n \<longleftrightarrow> True"
| "chain [k] n \<longleftrightarrow> k \<le> n \<and> k mod 4 = 0 \<and> n mod 4 = 0"
| "chain (k # j # ks) n \<longleftrightarrow> k \<le> j \<and> j \<le> n \<and> k mod 4 = 0 \<and> j mod 4 = 0 \<and> chain (j # ks) n"

fun cut_all :: "nat list \<Rightarrow> bytes \<Rightarrow> bytes list" where
  "cut_all [] xs = []"
| "cut_all [k] xs = [drop k xs]"
| "cut_all (k # j # ks) xs = take (j - k) (drop k xs) # cut_all (j # ks) xs"

lemma index_at_Cons_Suc [simp]: "index_at (x # xs) (Suc i) = index_at xs i"
  by (simp add: index_at_def)

lemma check_value_Suc:
  "check_value (k # ks) (Suc n) m (Suc i) = check_value ks n m i"
  by (simp add: check_value_def value_end_def)

lemma cut_value_Suc:
  "cut_value (k # ks) (Suc n) xs m (Suc i) = cut_value ks n xs m i"
  by (simp add: cut_value_def value_end_def)

lemma check_values:
  "(\<exists>us. for_each (check_value ks (length ks) m) [0..<length ks] = Ok us) \<longleftrightarrow> chain ks m"
proof (induction ks m rule: chain.induct)
  case (2 k n)
  then show ?case by (simp add: check_value_def value_end_def)
next
  case (3 k j ks n)
  have "check_value (k # j # ks) (length (k # j # ks)) n 0 =
      (if k > j \<or> j > n then none else if k mod 4 \<noteq> 0 \<or> j mod 4 \<noteq> 0 then none else Ok ())"
    by (simp add: check_value_def value_end_def)
  with 3 show ?case
    by (simp add: for_each_upt_Suc check_value_Suc del: upt_Suc)
qed simp

lemma check_values_no_panic:
  "for_each (check_value ks (length ks) m) [0..<length ks] \<noteq> Panic"
  by (rule for_each_no_panic)
     (auto simp: check_value_def value_end_def intro!: and_then_no_panic)

lemma cut_values:
  "chain ks (length xs) \<Longrightarrow>
     for_each (cut_value ks (length ks) xs (length xs)) [0..<length ks] = Ok (cut_all ks xs)"
proof (induction ks xs rule: cut_all.induct)
  case (2 k xs)
  then show ?case by (simp add: cut_value_def value_end_def)
next
  case (3 k j ks xs)
  then have "cut_value (k # j # ks) (length (k # j # ks)) xs (length xs) 0 =
      Ok (take (j - k) (drop k xs))"
    by (simp add: cut_value_def value_end_def)
  with 3 show ?case
    by (simp add: for_each_upt_Suc cut_value_Suc del: upt_Suc)
qed simp

lemma concat_cut_all: "chain (k # ks) (length xs) \<Longrightarrow> concat (cut_all (k # ks) xs) = drop k xs"
proof (induction ks arbitrary: k)
  case (Cons j ks)
  then have "concat (cut_all (k # j # ks) xs) = take (j - k) (drop k xs) @ drop j xs" by simp
  also have "drop j xs = drop (j - k) (drop k xs)" using Cons.prems by simp
  finally show ?case by (simp only: append_take_drop_id)
qed simp

lemma starts_cut_all: "chain (k # ks) (length xs) \<Longrightarrow> starts k (cut_all (k # ks) xs) = k # ks"
proof (induction ks arbitrary: k)
  case (Cons j ks)
  have "starts j (cut_all (j # ks) xs) = j # ks"
    by (rule Cons.IH) (use Cons.prems in simp)
  moreover have "k + length (take (j - k) (drop k xs)) = j" using Cons.prems by (auto simp: min_def)
  ultimately show ?case by simp
qed simp

lemma mod4_diff: "k mod 4 = 0 \<Longrightarrow> j mod 4 = 0 \<Longrightarrow> (j - k) mod 4 = (0::nat)"
  by presburger

lemma cut_all_aligned:
  "chain ks (length xs) \<Longrightarrow> list_all (\<lambda>v. length v mod 4 = 0) (cut_all ks xs)"
proof (induction ks xs rule: cut_all.induct)
  case (2 k xs)
  then show ?case by (simp add: mod4_diff)
next
  case (3 k j ks xs)
  then have "length (take (j - k) (drop k xs)) = j - k" by (auto simp: min_def)
  with 3 have "length (take (j - k) (drop k xs)) mod 4 = 0" by (simp only: mod4_diff chain.simps)
  with 3 show ?case by simp
qed simp

lemma length_cut_all [simp]: "length (cut_all ks xs) = length ks"
  by (induction ks xs rule: cut_all.induct) auto

lemma length_starts [simp]: "length (starts k vs) = length vs"
  by (induction vs arbitrary: k) auto

lemma chain_starts:
  assumes "k mod 4 = 0" and "list_all (\<lambda>v. length v mod 4 = 0) vs"
  shows "chain (starts k vs) (k + length (concat vs))"
  using assms
proof (induction vs arbitrary: k)
  case (Cons v vs)
  have "chain (starts (k + length v) vs) (k + length v + length (concat vs))"
    by (rule Cons.IH) (use Cons.prems in \<open>simp_all add: mod_add_eq [symmetric, of k]\<close>)
  moreover have "(k + length v) mod 4 = 0" "(k + length v + length (concat vs)) mod 4 = 0 \<or> vs \<noteq> []"
    using Cons.prems by (auto simp: mod_add_eq [symmetric, of k])
  ultimately show ?case
    using Cons.prems by (cases vs) (auto simp: ac_simps)
qed simp

lemma cut_all_starts: "drop k xs = concat vs \<Longrightarrow> cut_all (starts k vs) xs = vs"
proof (induction vs arbitrary: k)
  case (Cons v vs)
  have "drop (k + length v) xs = concat vs"
    using Cons.prems by (simp add: add.commute [of k] drop_drop [symmetric] del: drop_drop)
  then have "cut_all (starts (k + length v) vs) xs = vs" by (rule Cons.IH)
  with Cons.prems show ?case by (cases vs) auto
qed simp

section \<open>What the parser computes\<close>

text \<open>The parser in closed form: its count, offsets, tags and values read off the data.\<close>

abbreviation rt_count :: "bytes \<Rightarrow> nat" where
  "rt_count data \<equiv> le_nat (take 4 data)"

abbreviation rt_offsets :: "bytes \<Rightarrow> nat list" where
  "rt_offsets data \<equiv> 0 # map unat (words (rt_count data - 1) (drop 4 data))"

lemma rt_parse_short: "length data < 4 \<or> rt_count data = 0 \<or> length data < 8 * rt_count data \<Longrightarrow> rt_parse data = none"
  by (auto simp: rt_parse_def Let_def read_u32_le_in_range unat_u32_le)

lemma rt_parse_long:
  assumes "4 \<le> length data" and "0 < rt_count data" and "8 * rt_count data \<le> length data"
  shows "rt_parse data =
    (if chain (rt_offsets data) (length data - 8 * rt_count data)
     then Ok \<lparr>rt_tags = words (rt_count data) (drop (4 * rt_count data) data),
              rt_values = cut_all (rt_offsets data) (drop (8 * rt_count data) data)\<rparr>
     else none)"
proof -
  let ?n = "rt_count data" and ?os = "rt_offsets data"
  let ?vd = "drop (8 * ?n) data"
  have len: "length ?os = ?n" using assms(2) by simp
  have n: "unat (u32_le (take 4 data)) = ?n" using assms(1) by (simp add: unat_u32_le)
  have offs: "for_each (\<lambda>i. read_u32_le data (4 + i * 4)) [0..<?n - 1] =
      (Ok (words (?n - 1) (drop 4 data)) :: u32 list opt)"
    using assms by (intro read_block) simp
  have "4 + (?n - 1) * 4 = 4 * ?n" using assms(2) by simp
  then have tags: "for_each (\<lambda>i. read_u32_le data (4 + (?n - 1) * 4 + i * 4)) [0..<?n] =
      (Ok (words ?n (drop (4 * ?n) data)) :: u32 list opt)"
    using assms read_block [of "4 * ?n" ?n data] by simp
  have "(\<exists>us. for_each (check_value ?os ?n (length ?vd)) [0..<?n] = Ok us) \<longleftrightarrow> chain ?os (length ?vd)"
    using check_values [of ?os "length ?vd"] unfolding len .
  moreover have "for_each (check_value ?os ?n (length ?vd)) [0..<?n] \<noteq> Panic"
    using check_values_no_panic [of ?os "length ?vd"] unfolding len .
  moreover have "chain ?os (length ?vd) \<Longrightarrow>
      for_each (cut_value ?os ?n ?vd (length ?vd)) [0..<?n] = Ok (cut_all ?os ?vd)"
    using cut_values [of ?os ?vd] unfolding len .
  ultimately show ?thesis
    using assms offs tags
    by (cases "for_each (check_value ?os ?n (length ?vd)) [0..<?n]")
       (auto simp: rt_parse_def Let_def read_u32_le_in_range n)
qed

text \<open>Parsing never panics, whatever the datagram holds.\<close>

lemma rt_parse_not_panic [no_panic]: "rt_parse data \<noteq> Panic"
proof (cases "length data < 4 \<or> rt_count data = 0 \<or> length data < 8 * rt_count data")
  case True
  then show ?thesis by (simp add: rt_parse_short)
next
  case False
  then show ?thesis by (simp add: rt_parse_long)
qed

lemma rt_parse_Ok_iff:
  "rt_parse data = Ok m \<longleftrightarrow>
     4 \<le> length data \<and> 0 < rt_count data \<and> 8 * rt_count data \<le> length data \<and>
     chain (rt_offsets data) (length data - 8 * rt_count data) \<and>
     m = \<lparr>rt_tags = words (rt_count data) (drop (4 * rt_count data) data),
          rt_values = cut_all (rt_offsets data) (drop (8 * rt_count data) data)\<rparr>"
proof (cases "length data < 4 \<or> rt_count data = 0 \<or> length data < 8 * rt_count data")
  case True
  then show ?thesis by (auto simp: rt_parse_short)
next
  case False
  then show ?thesis by (auto simp: rt_parse_long)
qed

lemma rt_parse_encode:
  assumes "rt_parse data = Ok m"
  shows "rt_encode m = data"
proof -
  let ?n = "rt_count data"
  from assms have ge: "4 \<le> length data" and pos: "0 < ?n" and le: "8 * ?n \<le> length data"
    and ch: "chain (rt_offsets data) (length (drop (8 * ?n) data))"
    and m: "m = \<lparr>rt_tags = words ?n (drop (4 * ?n) data),
                 rt_values = cut_all (rt_offsets data) (drop (8 * ?n) data)\<rparr>"
    by (simp_all add: rt_parse_Ok_iff)
  have "to_le 4 ?n = take 4 data" using ge by (simp add: to_le_le_nat)
  moreover have "tl (starts 0 (rt_values m)) = map unat (words (?n - 1) (drop 4 data))"
    using starts_cut_all [OF ch] by (simp add: m)
  moreover have "le32s (map unat (words (?n - 1) (drop 4 data))) = take (4 * (?n - 1)) (drop 4 data)"
    using le by (intro le32s_words) simp
  moreover have "le32s (map unat (words ?n (drop (4 * ?n) data))) = take (4 * ?n) (drop (4 * ?n) data)"
    using le by (intro le32s_words) simp
  moreover have "concat (rt_values m) = drop (8 * ?n) data"
    using concat_cut_all [OF ch] by (simp add: m)
  ultimately have "rt_encode m = (take 4 data @ take (4 * (?n - 1)) (drop 4 data)) @
      take (4 * ?n) (drop (4 * ?n) data) @ drop (8 * ?n) data"
    by (simp add: rt_encode_def m)
  moreover have "take 4 data @ take (4 * (?n - 1)) (drop 4 data) = take (4 * ?n) data"
    using pos by (simp flip: take_add add: algebra_simps)
  moreover have "drop (8 * ?n) data = drop (4 * ?n) (drop (4 * ?n) data)" by simp
  ultimately show ?thesis by (simp only: append_take_drop_id)
qed

lemma rt_parse_wf:
  assumes "rt_parse data = Ok m"
  shows "rt_wf m"
proof -
  let ?n = "rt_count data" and ?vd = "drop (8 * rt_count data) data"
  from assms have ge: "4 \<le> length data" and pos: "0 < ?n"
    and ch: "chain (rt_offsets data) (length ?vd)"
    and m: "m = \<lparr>rt_tags = words ?n (drop (4 * ?n) data), rt_values = cut_all (rt_offsets data) ?vd\<rparr>"
    by (simp_all add: rt_parse_Ok_iff)
  have len: "length (words ?n (drop (4 * ?n) data)) = ?n" by simp
  have "?n < 2 ^ 32" using le_nat_bound [of "take 4 data"] ge by simp
  moreover have "list_all (\<lambda>k. k < 2 ^ 32) (starts 0 (rt_values m))"
  proof -
    have "unat (w :: u32) < 2 ^ 32" for w
      using unsigned_less [where ?'a = nat, of w] by simp
    then show ?thesis
      using starts_cut_all [OF ch] by (simp add: m list_all_iff)
  qed
  moreover have "words ?n (drop (4 * ?n) data) \<noteq> []"
    using pos len by (metis length_0_conv not_less_zero)
  moreover have "list_all (\<lambda>v. length v mod 4 = 0) (rt_values m)"
    using cut_all_aligned [OF ch] by (simp add: m)
  ultimately show ?thesis using pos by (simp add: rt_wf_def m)
qed

lemma rt_encode_parse:
  assumes wf: "rt_wf m"
  shows "rt_parse (rt_encode m) = Ok m"
proof -
  let ?d = "rt_encode m" and ?ts = "rt_tags m" and ?vs = "rt_values m"
  let ?n = "length (rt_tags m)"
  from wf have ne: "?ts \<noteq> []" and lv: "length ?vs = ?n" and lt: "?n < 2 ^ 32"
    and al: "list_all (\<lambda>v. length v mod 4 = 0) ?vs"
    and st: "list_all (\<lambda>k. k < 2 ^ 32) (starts 0 ?vs)"
    by (auto simp: rt_wf_def)
  have cnt: "rt_count ?d = ?n" using lt by (simp add: rt_encode_def le_nat_to_le)
  have os0: "starts 0 ?vs = 0 # tl (starts 0 ?vs)" using ne lv by (cases ?vs) auto
  have lo: "length (tl (starts 0 ?vs)) = ?n - 1" using lv by simp
  have pos: "0 < ?n" using ne by simp
  have d4: "drop 4 ?d = le32s (tl (starts 0 ?vs)) @ le32s (map unat ?ts) @ concat ?vs"
    by (simp add: rt_encode_def)
  have d4n: "drop (4 * ?n) ?d = le32s (map unat ?ts) @ concat ?vs"
  proof -
    have "4 * ?n = 4 * (?n - 1) + 4" using pos by linarith
    then have "drop (4 * ?n) ?d = drop (4 * (?n - 1)) (drop 4 ?d)" by (simp only: drop_drop)
    also have "\<dots> = le32s (map unat ?ts) @ concat ?vs"
      unfolding d4 by (rule drop_le32s [OF lo])
    finally show ?thesis .
  qed
  have d8n: "drop (8 * ?n) ?d = concat ?vs"
  proof -
    have "drop (8 * ?n) ?d = drop (4 * ?n) (drop (4 * ?n) ?d)" by simp
    also have "\<dots> = concat ?vs" unfolding d4n by (rule drop_le32s) simp
    finally show ?thesis .
  qed
  have len: "length ?d = 8 * ?n + length (concat ?vs)"
    using pos lo by (cases ?ts) (simp_all add: rt_encode_def)
  have "map unat (words (?n - 1) (drop 4 ?d)) = tl (starts 0 ?vs)"
  proof -
    have "words (?n - 1) (drop 4 ?d) = map of_nat (tl (starts 0 ?vs))"
      using words_le32s [of "tl (starts 0 ?vs)"] unfolding lo d4 by simp
    moreover have "unat (of_nat k :: u32) = k" if "k \<in> set (tl (starts 0 ?vs))" for k
    proof -
      have "k < 2 ^ 32" using st that os0 by (metis list.set_intros(2) list_all_iff)
      then show ?thesis by (simp add: unat_of_nat)
    qed
    ultimately show ?thesis by (simp add: map_idI)
  qed
  then have os: "0 # map unat (words (?n - 1) (drop 4 ?d)) = starts 0 ?vs" using os0 by simp
  have "words ?n (drop (4 * ?n) ?d) = ?ts"
    using words_le32s [of "map unat ?ts"] by (simp add: d4n o_def)
  moreover have "chain (starts 0 ?vs) (length (concat ?vs))"
    using chain_starts [of 0 ?vs] al by simp
  moreover have "cut_all (starts 0 ?vs) (concat ?vs) = ?vs"
    by (rule cut_all_starts) simp
  ultimately have "rt_parse ?d = Ok \<lparr>rt_tags = ?ts, rt_values = ?vs\<rparr>"
    using pos len unfolding rt_parse_Ok_iff cnt os d8n by (cases ?ts) simp_all
  then show ?thesis by simp
qed

text \<open>The parser is the exact inverse of the wire format.\<close>

interpretation rt_codec: canonical_codec rt_encode rt_parse rt_wf
  by unfold_locales (auto simp: rt_encode_parse rt_parse_wf rt_parse_encode)

section \<open>Lookup\<close>

lemma rt_get_from_eq:
  "length vs = i + length ts \<Longrightarrow>
     rt_get_from i ts vs tag =
       (case map_of (zip ts (drop i vs)) tag of None \<Rightarrow> none | Some v \<Rightarrow> Ok v)"
proof (induction ts arbitrary: i)
  case (Cons t ts)
  then have "drop i vs = vs ! i # drop (Suc i) vs" by (simp flip: Cons_nth_drop_Suc)
  with Cons show ?case by simp
qed simp

lemma rt_get_map_of:
  "rt_wf m \<Longrightarrow> rt_get m tag =
     (case map_of (zip (rt_tags m) (rt_values m)) tag of None \<Rightarrow> none | Some v \<Rightarrow> Ok v)"
  by (simp add: rt_get_def rt_wf_def rt_get_from_eq)

lemma rt_get_no_panic [no_panic]: "rt_wf m \<Longrightarrow> rt_get m tag \<noteq> Panic"
  by (simp add: rt_get_map_of split: option.split)

lemma rt_get_aligned: "rt_wf m \<Longrightarrow> rt_get m tag = Ok v \<Longrightarrow> length v mod 4 = 0"
  by (auto simp: rt_get_map_of rt_wf_def list_all_iff split: option.splits
        dest!: map_of_SomeD dest: set_zip_rightD)

section \<open>Messages from fields\<close>

definition rt_msg :: "(u32 \<times> bytes) list \<Rightarrow> rt_message" where
  "rt_msg fs = \<lparr>rt_tags = map fst fs, rt_values = map snd fs\<rparr>"

definition rt_fields_ok :: "(u32 \<times> bytes) list \<Rightarrow> bool" where
  "rt_fields_ok fs \<longleftrightarrow>
     fs \<noteq> [] \<and> length fs < 2 ^ 32 \<and> list_all (\<lambda>f. length (snd f) mod 4 = 0) fs \<and>
     length (concat (map snd fs)) < 2 ^ 32"

lemma starts_bound: "k' \<in> set (starts k vs) \<Longrightarrow> k' \<le> k + length (concat vs)"
proof (induction vs arbitrary: k)
  case (Cons v vs)
  then show ?case by fastforce
qed simp

lemma rt_msg_wf: "rt_fields_ok fs \<Longrightarrow> rt_wf (rt_msg fs)"
  using starts_bound [of _ 0 "map snd fs"]
  by (force simp: rt_fields_ok_def rt_wf_def rt_msg_def list_all_iff)

lemma rt_parse_msg: "rt_fields_ok fs \<Longrightarrow> rt_parse (rt_encode (rt_msg fs)) = Ok (rt_msg fs)"
  by (rule rt_codec.dec_enc) (rule rt_msg_wf)

lemma rt_get_msg:
  "rt_fields_ok fs \<Longrightarrow>
     rt_get (rt_msg fs) tag = (case map_of fs tag of None \<Rightarrow> none | Some v \<Rightarrow> Ok v)"
  using rt_msg_wf [of fs] by (simp add: rt_get_map_of) (simp add: rt_msg_def zip_map_fst_snd)

lemma length_rt_encode_msg:
  "fs \<noteq> [] \<Longrightarrow> length (rt_encode (rt_msg fs)) = 8 * length fs + length (concat (map snd fs))"
  by (cases fs) (simp_all add: rt_encode_def rt_msg_def)

section \<open>Properties\<close>

text \<open>
  C5. The parser accepts a byte string exactly when it is the encoding of a well-formed message, and
  returns that message: no malformed message is accepted, no well-formed one refused, and no two
  different byte strings are read as the same message.
\<close>

theorem rt_parse_exact: "rt_parse data = Ok m \<longleftrightarrow> rt_wf m \<and> rt_encode m = data"
  by (rule rt_codec.dec_iff)

end
