(* ===== verification/Crypto_Lib.thy ===== *)
theory Crypto_Lib
  imports Prelude
begin

text \<open>
  The third-party libraries the loader calls for cryptography and text encodings (aws-lc-rs,
  chacha20, poly1305, base16ct, base64ct). Their code is not part of the repository, so the model
  takes them as a record of functions, of which nothing is assumed but the types: an array of fixed
  size is a word of that width, a verification is a yes or no, a decoder may fail. Theorems that
  need more of a function name it as a hypothesis.
\<close>

record crypto_lib =
  sha384 :: "bytes \<Rightarrow> 384 word"
  sha512 :: "bytes \<Rightarrow> 512 word"
  ed25519_verify :: "bytes \<Rightarrow> bytes \<Rightarrow> bytes \<Rightarrow> bool"
  ecdsa_p384_verify :: "bytes \<Rightarrow> bytes \<Rightarrow> bytes \<Rightarrow> bool"
  x25519_public_key :: "bytes \<Rightarrow> 256 word option"
  x25519_agree :: "bytes \<Rightarrow> bytes \<Rightarrow> bytes option"
  hchacha20 :: "bytes \<Rightarrow> bytes \<Rightarrow> 256 word"
  xchacha20_byte :: "bytes \<Rightarrow> bytes \<Rightarrow> nat \<Rightarrow> u8"
  poly1305_tag :: "bytes \<Rightarrow> bytes \<Rightarrow> 128 word"
  base16_mixed_decode :: "bytes \<Rightarrow> bytes option"
  base16_lower_encode :: "bytes \<Rightarrow> bytes"
  base64_decode :: "bytes \<Rightarrow> bytes option"
  base64url_encode :: "bytes \<Rightarrow> bytes"

text \<open>The verification functions take the public key, the message and the signature, in this order.\<close>

text \<open>
  A library for witnesses and concrete runs: \<open>x + 1\<close> arithmetic in place of hashing, signatures
  that must equal the start of the message, identity encodings. It has none of the security of the
  real one; it only shows that hypotheses about a library can hold.
\<close>

definition toy_lib :: crypto_lib where
  "toy_lib =
     \<lparr>sha384 = (\<lambda>m. of_nat (le_nat m)), sha512 = (\<lambda>m. of_nat (le_nat m)),
      ed25519_verify = (\<lambda>k m s. s = take 64 (m @ replicate 64 0)),
      ecdsa_p384_verify = (\<lambda>k m s. s = m),
      x25519_public_key = (\<lambda>sk. Some (of_nat (le_nat sk))),
      x25519_agree = (\<lambda>sk pk. Some pk),
      hchacha20 = (\<lambda>k n. of_nat (le_nat k)),
      xchacha20_byte = (\<lambda>k n i. of_nat i),
      poly1305_tag = (\<lambda>k m. of_nat (le_nat m)),
      base16_mixed_decode = (\<lambda>s. Some s), base16_lower_encode = (\<lambda>s. s),
      base64_decode = (\<lambda>s. Some s), base64url_encode = (\<lambda>s. s)\<rparr>"

text \<open>
  Hexadecimal text as base16ct documents it, for witnesses in which a text must decode to what was
  encoded.
\<close>

definition hex_digit :: "nat \<Rightarrow> u8" where
  "hex_digit n = (if n < 10 then of_nat (48 + n) else of_nat (87 + n))"

definition hex_value :: "u8 \<Rightarrow> nat option" where
  "hex_value x =
     (if 0x30 \<le> x \<and> x \<le> 0x39 then Some (unat x - 48)
      else if 0x61 \<le> x \<and> x \<le> 0x66 then Some (unat x - 87)
      else if 0x41 \<le> x \<and> x \<le> 0x46 then Some (unat x - 55) else None)"

definition hex_encode :: "bytes \<Rightarrow> bytes" where
  "hex_encode s = concat (map (\<lambda>b. [hex_digit (unat b div 16), hex_digit (unat b mod 16)]) s)"

fun hex_decode :: "bytes \<Rightarrow> bytes option" where
  "hex_decode [] = Some []"
| "hex_decode [x] = None"
| "hex_decode (x # y # s) =
     (case (hex_value x, hex_value y) of
        (Some h, Some l) \<Rightarrow> map_option ((#) (of_nat (16 * h + l))) (hex_decode s)
      | _ \<Rightarrow> None)"

lemma hex_value_digit: "n < 16 \<Longrightarrow> hex_value (hex_digit n) = Some n"
proof -
  assume n: "n < 16"
  then have u: "unat (of_nat (48 + n) :: u8) = 48 + n" "unat (of_nat (87 + n) :: u8) = 87 + n"
    by (simp_all add: unat_of_nat del: of_nat_add)
  then show ?thesis
    using n by (auto simp: hex_value_def hex_digit_def word_le_nat_alt simp del: of_nat_add)
qed

lemma hex_decode_encode: "hex_decode (hex_encode s) = Some s"
proof (induction s)
  case Nil
  show ?case by (simp add: hex_encode_def)
next
  case (Cons b s)
  have "unat b < 256" using unsigned_less [where ?'a = nat, of b] by simp
  then have "unat b div 16 < 16" "unat b mod 16 < 16" by simp_all
  moreover have "(of_nat (16 * (unat b div 16) + unat b mod 16) :: u8) = b"
    unfolding mult_div_mod_eq by simp
  ultimately show ?case
    using Cons by (simp add: hex_encode_def hex_value_digit del: of_nat_add of_nat_mult)
qed

end
