(* ===== verification/World.thy ===== *)
theory World
  imports Crypto_Lib
begin

text \<open>
  The outside of the loader: every call the code makes to the kernel, the network, the clock, the
  random generator or an HTTP client is an event of a trace, newest first, and an environment
  answers each call as a function of the trace so far. A theorem about all environments is a
  theorem about every behaviour of the outside. A program (\<open>io\<close>) takes the environment and the
  trace and returns a result and the extended trace.

  The outcome \<open>Panic\<close> of a program means that the process has ended: it was aborted, powered the
  machine off or exited. Text written to the console is not part of the model.
\<close>

section \<open>Addresses\<close>

text \<open>An IPv6 address is its 16 octets.\<close>

datatype ip_addr = V4 u8 u8 u8 u8 | V6 "128 word"

type_synonym socket_addr = "ip_addr \<times> u16"

text \<open>What a read from an accepted stream gives: the data of a read is empty at the end of the stream.\<close>

datatype stream_read = Data bytes | Stream_Error | Read_Timed_Out

section \<open>Events\<close>

datatype fatal =
    Mount_Failed bytes
  | Create_Dir_Failed bytes
  | Tls_Config_Failed
  | No_Secure_Time
  | Time_Before_Floor u64
  | Set_Clock_Failed
  | Http_Client_Failed
  | Download_Failed bytes
  | Hash_Mismatch bytes bytes
  | Signature_Failed
  | Write_Binary_Failed
  | Chmod_Binary_Failed
  | Lockdown_Failed bytes
  | Spawn_Server_Failed
  | Spawn_Attestation_Failed
  | Server_Exited u32
  | Attestation_Exited u32
  | Attestation_Bind_Failed
  | Attestation_Accept_Failed

text \<open>
  The client side of TLS: cipher suites and key exchange groups by name, protocol versions and ALPN
  protocols.
\<close>

record tls_config =
  cipher_suites :: "bytes list"
  kx_groups :: "bytes list"
  tls_versions :: "bytes list"
  alpn_protocols :: "bytes list"

text \<open>A process to start: \<open>Command::new(..)\<close> with its builder calls.\<close>

record command =
  program :: bytes
  arguments :: "bytes list"
  environ :: "(bytes \<times> bytes) list"
  uid :: u32
  gid :: u32
  no_core_dump :: bool

text \<open>
  Times of \<open>Sleep_Ms\<close> are in milliseconds; \<open>Build_Http_Client\<close> has the timeouts of a request and of its
  connection in seconds. \<open>Http_Read\<close> and \<open>Http_Reply\<close> name the accepted connection they are on.
\<close>

datatype event =
    Read_Clock
  | Rand_Fill nat
  | Sleep_Ms nat
  | Udp_Bind
  | Udp_Send socket_addr bytes
  | Udp_Recv nat nat
  | Tcp_Connect socket_addr nat
  | Tcp_Write bytes
  | Tcp_Read nat
  | Generate_X25519
  | Build_Http_Client tls_config nat "nat option"
  | Http_Get bytes
  | Http_Get_Pinned bytes bytes socket_addr
  | Clock_Set u64 u64
  | Mount "bytes option" bytes "bytes option" u64 "bytes option"
  | Create_Dir bytes
  | Create_Dir_All bytes
  | Open_Read bytes
  | Read_Byte
  | Write_File bytes bytes
  | Set_Permissions bytes u32
  | Read_Text bytes
  | Read_Dir bytes
  | Path_Exists bytes
  | Socket_Open
  | Ioctl u64 bytes
  | Socket_Close
  | Mlockall u32
  | Tcp_Listen u16
  | Http_Read nat stream_read
  | Http_Reply nat bytes
  | Install_Provider
  | Tls_Client_Config
  | Current_Exe
  | Spawn command
  | Wait_Pid
  | Power_Off fatal
  | Exit_Process u8

type_synonym trace = "event list"

section \<open>The environment\<close>

datatype recv_outcome = Received bytes | Recv_Failed | Recv_Timeout

datatype connect_outcome = Connected | Connect_Failed | Connect_Timeout

text \<open>
  The outcome of a request of the HTTP client: no connection, or an answer with its status, the
  chunks of its body and whether the body ended without a read error. The client ends a body after
  its request timeout at the latest, so there are finitely many chunks. The client resolves host
  names through the resolver it was built with; what that adds to an answer is the environment's.
\<close>

datatype http_answer = No_Connection | Answer u16 "bytes list" bool

record net_env =
  clock_now :: "trace \<Rightarrow> u64"
  rand_ok :: "trace \<Rightarrow> bool"
  rand_byte :: "trace \<Rightarrow> nat \<Rightarrow> u8"
  udp_bind_ok :: "trace \<Rightarrow> bool"
  udp_send_ok :: "trace \<Rightarrow> bool"
  udp_recv :: "trace \<Rightarrow> recv_outcome"
  tcp_connect :: "trace \<Rightarrow> connect_outcome"
  tcp_write_ok :: "trace \<Rightarrow> bool"
  tcp_read_ok :: "trace \<Rightarrow> bool"
  tcp_byte :: "trace \<Rightarrow> nat \<Rightarrow> u8"
  x25519_generate :: "trace \<Rightarrow> bytes option"
  client_build_ok :: "trace \<Rightarrow> bool"
  http_get :: "trace \<Rightarrow> bytes \<Rightarrow> http_answer"
  http_date :: "trace \<Rightarrow> bytes option option"

record os_env =
  clock_set_ok :: "trace \<Rightarrow> bool"
  mount_ok :: "trace \<Rightarrow> bool"
  fs_ok :: "trace \<Rightarrow> bool"
  read_text :: "trace \<Rightarrow> bytes option"
  read_dir :: "trace \<Rightarrow> bytes option list option"
  socket_ok :: "trace \<Rightarrow> bool"
  ioctl_ok :: "trace \<Rightarrow> bool"
  ioctl_out :: "trace \<Rightarrow> bytes \<Rightarrow> nat \<Rightarrow> u8"
  tls_config_ok :: "trace \<Rightarrow> bool"
  current_exe :: "trace \<Rightarrow> bytes option"
  spawn_pid :: "trace \<Rightarrow> u32 option"
  wait_pid :: "trace \<Rightarrow> 32 word"
  reboot_returns :: "trace \<Rightarrow> bool"
  error_text :: "trace \<Rightarrow> bytes"
  exitinfo2 :: "trace \<Rightarrow> u64"
  listen_ok :: "trace \<Rightarrow> bool"

record env =
  lib :: crypto_lib
  net :: net_env
  os :: os_env

section \<open>Programs\<close>

type_synonym ('e, 'a) io = "env \<Rightarrow> trace \<Rightarrow> ('e, 'a) result \<times> trace"

definition pure :: "('e, 'a) result \<Rightarrow> ('e, 'a) io" where
  "pure r E t = (r, t)"

abbreviation return :: "'a \<Rightarrow> ('e, 'a) io" where
  "return x \<equiv> pure (Ok x)"

abbreviation fail :: "'e \<Rightarrow> ('e, 'a) io" where
  "fail e \<equiv> pure (Err e)"

text \<open>Run \<open>m\<close> and go on with its value or its error; a process that has ended does not go on.\<close>

definition on_result ::
  "('e, 'a) io \<Rightarrow> ('e \<Rightarrow> ('f, 'b) io) \<Rightarrow> ('a \<Rightarrow> ('f, 'b) io) \<Rightarrow> ('f, 'b) io" where
  "on_result m g f E t =
     (case m E t of (Ok x, t') \<Rightarrow> f x E t' | (Err e, t') \<Rightarrow> g e E t' | (Panic, t') \<Rightarrow> (Panic, t'))"

text \<open>The \<open>?\<close> operator in a program.\<close>

definition bind :: "('e, 'a) io \<Rightarrow> ('a \<Rightarrow> ('e, 'b) io) \<Rightarrow> ('e, 'b) io" where
  "bind m f = on_result m (\<lambda>e. fail e) f"

text \<open>One call: its answer is taken from the environment, and the event is recorded.\<close>

definition call :: "event \<Rightarrow> (env \<Rightarrow> trace \<Rightarrow> 'a) \<Rightarrow> ('e, 'a) io" where
  "call ev answer E t = (Ok (answer E t), ev # t)"

abbreviation emit :: "event \<Rightarrow> ('e, unit) io" where
  "emit ev \<equiv> call ev (\<lambda>_ _. ())"

definition with_lib :: "(crypto_lib \<Rightarrow> ('e, 'a) io) \<Rightarrow> ('e, 'a) io" where
  "with_lib f E t = f (lib E) E t"

definition require :: "'e \<Rightarrow> bool \<Rightarrow> ('e, unit) io" where
  "require e c = pure (check e c)"

text \<open>
  \<open>panic_shutdown\<close> of \<open>src/main.rs\<close>: power off; when that call returns, exit with failure. Nothing of
  the process runs afterwards.
\<close>

definition panic_shutdown :: "fatal \<Rightarrow> ('e, 'a) io" where
  "panic_shutdown why E t =
     (Panic, if reboot_returns (os E) t then Exit_Process 1 # Power_Off why # t else Power_Off why # t)"

text \<open>\<open>r.unwrap_or_else(|e| panic_shutdown(..))\<close> for a call that succeeds or not.\<close>

definition or_shutdown :: "fatal \<Rightarrow> bool \<Rightarrow> ('e, unit) io" where
  "or_shutdown why ok = (if ok then return () else panic_shutdown why)"

section \<open>Running programs\<close>

lemma pure_eq [simp]: "pure r E t = (r, t)"
  by (simp add: pure_def)

lemma call_eq [simp]: "call ev answer E t = (Ok (answer E t), ev # t)"
  by (simp add: call_def)

lemma with_lib_eq [simp]: "with_lib f E t = f (lib E) E t"
  by (simp add: with_lib_def)

lemma require_eq [simp]: "require e c E t = (check e c, t)"
  by (simp add: require_def)

lemma on_result_eq:
  "on_result m g f E t =
     (case m E t of (Ok x, t') \<Rightarrow> f x E t' | (Err e, t') \<Rightarrow> g e E t' | (Panic, t') \<Rightarrow> (Panic, t'))"
  by (simp add: on_result_def)

lemma on_result_Ok_iff:
  "on_result m g f E t = (Ok y, t'') \<longleftrightarrow>
     (\<exists>x t'. m E t = (Ok x, t') \<and> f x E t' = (Ok y, t'')) \<or>
     (\<exists>e t'. m E t = (Err e, t') \<and> g e E t' = (Ok y, t''))"
  by (auto simp: on_result_def split: prod.splits result.splits)

lemma bind_eq:
  "bind m f E t =
     (case m E t of (Ok x, t') \<Rightarrow> f x E t' | (Err e, t') \<Rightarrow> (Err e, t') | (Panic, t') \<Rightarrow> (Panic, t'))"
  by (auto simp: bind_def on_result_def split: prod.splits result.splits)

lemma bind_Ok_iff:
  "bind m f E t = (Ok y, t'') \<longleftrightarrow> (\<exists>x t'. m E t = (Ok x, t') \<and> f x E t' = (Ok y, t''))"
  by (auto simp: bind_eq split: prod.splits result.splits)

lemma bind_Ok [simp]: "m E t = (Ok x, t') \<Longrightarrow> bind m f E t = f x E t'"
  by (simp add: bind_eq)

lemma bind_Err [simp]: "m E t = (Err e, t') \<Longrightarrow> bind m f E t = (Err e, t')"
  by (simp add: bind_eq)

lemma bind_Panic [simp]: "m E t = (Panic, t') \<Longrightarrow> bind m f E t = (Panic, t')"
  by (simp add: bind_eq)

lemma bind_assoc: "bind (bind m f) g = bind m (\<lambda>x. bind (f x) g)"
  by (intro ext) (simp add: bind_eq split: prod.splits result.splits)

lemma bind_return [simp]: "bind (return x) f = f x"
  by (intro ext) simp

section \<open>Reasoning about programs\<close>

text \<open>
  \<open>triple E P m Q B A\<close>: started in a trace with \<open>P\<close>, the program ends with \<open>Q\<close> of its value and the
  trace, with \<open>B\<close> of its error and the trace, or with \<open>A\<close> of the trace when the process has ended.
\<close>

definition triple ::
  "env \<Rightarrow> (trace \<Rightarrow> bool) \<Rightarrow> ('e, 'a) io \<Rightarrow> ('a \<Rightarrow> trace \<Rightarrow> bool) \<Rightarrow> ('e \<Rightarrow> trace \<Rightarrow> bool) \<Rightarrow>
   (trace \<Rightarrow> bool) \<Rightarrow> bool" where
  "triple E P m Q B A \<longleftrightarrow>
     (\<forall>t. P t \<longrightarrow>
       (case m E t of (Ok x, t') \<Rightarrow> Q x t' | (Err e, t') \<Rightarrow> B e t' | (Panic, t') \<Rightarrow> A t'))"

lemma triple_Ok: "triple E P m Q B A \<Longrightarrow> P t \<Longrightarrow> m E t = (Ok x, t') \<Longrightarrow> Q x t'"
  by (auto simp: triple_def)

lemma triple_Err: "triple E P m Q B A \<Longrightarrow> P t \<Longrightarrow> m E t = (Err e, t') \<Longrightarrow> B e t'"
  by (auto simp: triple_def)

lemma triple_Panic: "triple E P m Q B A \<Longrightarrow> P t \<Longrightarrow> m E t = (Panic, t') \<Longrightarrow> A t'"
  by (auto simp: triple_def)

lemma panic_shutdown_fst [simp]: "fst (panic_shutdown why E t) = Panic"
  by (simp add: panic_shutdown_def)

lemma panic_shutdown_not_Ok [simp]:
  "panic_shutdown why E t \<noteq> (Ok x, t')" "panic_shutdown why E t \<noteq> (Err e, t')"
  by (simp_all add: panic_shutdown_def)

lemma or_shutdown_eq: "or_shutdown why ok E t = (if ok then (Ok (), t) else panic_shutdown why E t)"
  by (simp add: or_shutdown_def)

lemma bind_return_right [simp]: "bind m (\<lambda>x. return x) = m"
  by (intro ext) (simp add: bind_eq split: prod.splits result.splits)

lemma triple_weaken:
  "triple E P m Q B A \<Longrightarrow> (\<And>t. P' t \<Longrightarrow> P t) \<Longrightarrow> (\<And>x t. Q x t \<Longrightarrow> Q' x t) \<Longrightarrow>
   (\<And>e t. B e t \<Longrightarrow> B' e t) \<Longrightarrow> (\<And>t. A t \<Longrightarrow> A' t) \<Longrightarrow> triple E P' m Q' B' A'"
  by (fastforce simp: triple_def split: prod.splits result.splits)

lemma triple_pure:
  "(\<And>x t. r = Ok x \<Longrightarrow> P t \<Longrightarrow> Q x t) \<Longrightarrow> (\<And>e t. r = Err e \<Longrightarrow> P t \<Longrightarrow> B e t) \<Longrightarrow>
   (\<And>t. r = Panic \<Longrightarrow> P t \<Longrightarrow> A t) \<Longrightarrow> triple E P (pure r) Q B A"
  by (cases r) (auto simp: triple_def)

lemma triple_call:
  "(\<And>t. P t \<Longrightarrow> Q (answer E t) (ev # t)) \<Longrightarrow> triple E P (call ev answer) Q B A"
  by (simp add: triple_def)

lemma triple_on_result:
  assumes "triple E P m Q B A" and "\<And>x. triple E (Q x) (f x) R C A"
    and "\<And>e. triple E (B e) (g e) R C A"
  shows "triple E P (on_result m g f) R C A"
  using assms unfolding triple_def on_result_def
  by (fastforce split: prod.splits result.splits)

lemma triple_bind:
  assumes "triple E P m Q C A" and "\<And>x. triple E (Q x) (f x) R C A"
  shows "triple E P (bind m f) R C A"
  unfolding bind_def using assms by (rule triple_on_result) (rule triple_pure, auto)

lemma triple_if:
  "(c \<Longrightarrow> triple E P m Q B A) \<Longrightarrow> (\<not> c \<Longrightarrow> triple E P n Q B A) \<Longrightarrow>
     triple E P (if c then m else n) Q B A"
  by simp

lemma triple_panic_shutdown:
  "(\<And>t. P t \<Longrightarrow> A (Power_Off why # t) \<and> A (Exit_Process 1 # Power_Off why # t)) \<Longrightarrow>
     triple E P (panic_shutdown why) Q B A"
  by (simp add: triple_def panic_shutdown_def)

text \<open>A program that extends the trace by events of one kind, whatever its outcome.\<close>

definition emits :: "env \<Rightarrow> (event \<Rightarrow> bool) \<Rightarrow> ('e, 'a) io \<Rightarrow> bool" where
  "emits E P m \<longleftrightarrow> (\<forall>t. \<exists>p. snd (m E t) = p @ t \<and> (\<forall>ev\<in>set p. P ev))"

named_theorems emits_intro \<open>programs whose events are of one kind\<close>

lemma emitsD:
  assumes "emits E P m" and "m E t = (r, t')"
  obtains p where "t' = p @ t" and "\<forall>ev\<in>set p. P ev"
  using assms by (metis emits_def snd_conv)

lemma emits_weaken: "emits E P m \<Longrightarrow> (\<And>ev. P ev \<Longrightarrow> Q ev) \<Longrightarrow> emits E Q m"
  unfolding emits_def by blast

lemma emits_pure [emits_intro]: "emits E P (pure r)"
  by (simp add: emits_def)

lemma emits_require [emits_intro]: "emits E P (require e c)"
  by (simp add: emits_def)

lemma emits_call [emits_intro]: "P ev \<Longrightarrow> emits E P (call ev answer)"
  unfolding emits_def by (auto intro!: exI [of _ "[ev]"])

lemma emits_panic_shutdown [emits_intro]:
  "P (Power_Off why) \<Longrightarrow> P (Exit_Process 1) \<Longrightarrow> emits E P (panic_shutdown why)"
  unfolding emits_def panic_shutdown_def
  by (auto intro: exI [of _ "[Power_Off why]"] exI [of _ "[Exit_Process 1, Power_Off why]"])

lemma emits_on_result [emits_intro]:
  assumes m: "emits E P m" and g: "\<And>e. emits E P (g e)" and f: "\<And>x. emits E P (f x)"
  shows "emits E P (on_result m g f)"
proof -
  have "\<exists>p. snd (on_result m g f E t) = p @ t \<and> (\<forall>ev\<in>set p. P ev)" for t
  proof -
    obtain r u where mt: "m E t = (r, u)" by (metis surj_pair)
    obtain p where p: "u = p @ t" "\<forall>ev\<in>set p. P ev"
      using m mt by (rule emitsD)
    have "\<exists>q. snd (on_result m g f E t) = q @ u \<and> (\<forall>ev\<in>set q. P ev)"
    proof (cases r)
      case (Ok x)
      then show ?thesis using f [of x] mt by (simp add: on_result_eq emits_def)
    next
      case (Err e)
      then show ?thesis using g [of e] mt by (simp add: on_result_eq emits_def)
    qed (simp add: on_result_eq mt)
    then obtain q where "snd (on_result m g f E t) = q @ u" "\<forall>ev\<in>set q. P ev" by blast
    with p show ?thesis by (intro exI [of _ "q @ p"]) auto
  qed
  then show ?thesis by (simp add: emits_def)
qed

lemma emits_bind [emits_intro]: "emits E P m \<Longrightarrow> (\<And>x. emits E P (f x)) \<Longrightarrow> emits E P (bind m f)"
  unfolding bind_def by (intro emits_intro)

lemma emits_if [emits_intro]: "emits E P m \<Longrightarrow> emits E P n \<Longrightarrow> emits E P (if c then m else n)"
  by simp

lemma emits_option [emits_intro]:
  "emits E P m \<Longrightarrow> (\<And>y. emits E P (f y)) \<Longrightarrow> emits E P (case x of None \<Rightarrow> m | Some y \<Rightarrow> f y)"
  by (cases x) auto

lemma emits_recv [emits_intro]:
  "(\<And>d. emits E P (f d)) \<Longrightarrow> emits E P m \<Longrightarrow> emits E P n \<Longrightarrow>
     emits E P (case r of Received d \<Rightarrow> f d | Recv_Failed \<Rightarrow> m | Recv_Timeout \<Rightarrow> n)"
  by (cases r) auto

lemma emits_connect [emits_intro]:
  "emits E P k \<Longrightarrow> emits E P m \<Longrightarrow> emits E P n \<Longrightarrow>
     emits E P (case r of Connect_Timeout \<Rightarrow> k | Connect_Failed \<Rightarrow> m | Connected \<Rightarrow> n)"
  by (cases r) auto

lemma emits_with_lib [emits_intro]: "emits E P (f (lib E)) \<Longrightarrow> emits E P (with_lib f)"
  by (simp add: emits_def)

lemma emits_or_shutdown [emits_intro]:
  "P (Power_Off why) \<Longrightarrow> P (Exit_Process 1) \<Longrightarrow> emits E P (or_shutdown why ok)"
  unfolding or_shutdown_def by (intro emits_intro)

text \<open>A program that never ends the process.\<close>

definition safe :: "env \<Rightarrow> ('e, 'a) io \<Rightarrow> bool" where
  "safe E m \<longleftrightarrow> (\<forall>t. fst (m E t) \<noteq> Panic)"

named_theorems safe_intro \<open>programs that never end the process\<close>

lemma safeD: "safe E m \<Longrightarrow> m E t = (r, t') \<Longrightarrow> r \<noteq> Panic"
  by (metis fst_conv safe_def)

lemma safe_pure [safe_intro]: "r \<noteq> Panic \<Longrightarrow> safe E (pure r)"
  by (simp add: safe_def)

lemma safe_call [safe_intro]: "safe E (call ev answer)"
  by (simp add: safe_def)

lemma safe_on_result [safe_intro]:
  "safe E m \<Longrightarrow> (\<And>e. safe E (g e)) \<Longrightarrow> (\<And>x. safe E (f x)) \<Longrightarrow> safe E (on_result m g f)"
  unfolding safe_def on_result_def by (simp split: prod.splits result.splits) (metis fst_conv)

lemma safe_bind [safe_intro]: "safe E m \<Longrightarrow> (\<And>x. safe E (f x)) \<Longrightarrow> safe E (bind m f)"
  unfolding bind_def by (rule safe_on_result) (auto intro: safe_pure)

lemma safe_if [safe_intro]: "safe E m \<Longrightarrow> safe E n \<Longrightarrow> safe E (if c then m else n)"
  by simp

lemma safe_option [safe_intro]:
  "safe E m \<Longrightarrow> (\<And>y. safe E (f y)) \<Longrightarrow> safe E (case x of None \<Rightarrow> m | Some y \<Rightarrow> f y)"
  by (cases x) auto

lemma safe_recv [safe_intro]:
  "(\<And>d. safe E (f d)) \<Longrightarrow> safe E m \<Longrightarrow> safe E n \<Longrightarrow>
     safe E (case r of Received d \<Rightarrow> f d | Recv_Failed \<Rightarrow> m | Recv_Timeout \<Rightarrow> n)"
  by (cases r) auto

lemma safe_connect [safe_intro]:
  "safe E k \<Longrightarrow> safe E m \<Longrightarrow> safe E n \<Longrightarrow>
     safe E (case r of Connect_Timeout \<Rightarrow> k | Connect_Failed \<Rightarrow> m | Connected \<Rightarrow> n)"
  by (cases r) auto

lemma safe_require [safe_intro]: "safe E (require e c)"
  by (simp add: safe_def)

lemma safe_with_lib [safe_intro]: "safe E (f (lib E)) \<Longrightarrow> safe E (with_lib f)"
  by (simp add: safe_def)

text \<open>A program that always returns a value.\<close>

definition completes :: "env \<Rightarrow> ('e, 'a) io \<Rightarrow> bool" where
  "completes E m \<longleftrightarrow> (\<forall>t. \<exists>x t'. m E t = (Ok x, t'))"

named_theorems completes_intro \<open>programs that always return a value\<close>

lemma completesD: "completes E m \<Longrightarrow> \<exists>x t'. m E t = (Ok x, t')"
  by (simp add: completes_def)

lemma completes_safe: "completes E m \<Longrightarrow> safe E m"
  unfolding completes_def safe_def by (metis fst_conv result.distinct(3))

lemma completes_return [completes_intro]: "completes E (return x)"
  by (simp add: completes_def)

lemma completes_call [completes_intro]: "completes E (call ev answer)"
  by (simp add: completes_def)

lemma completes_bind [completes_intro]:
  "completes E m \<Longrightarrow> (\<And>x. completes E (f x)) \<Longrightarrow> completes E (bind m f)"
  unfolding completes_def by (metis bind_Ok)

text \<open>The same for a call, whose answer is known.\<close>

lemma completes_call_bind:
  "(\<And>t. completes E (f (answer E t))) \<Longrightarrow> completes E (bind (call ev answer) f)"
  by (simp add: completes_def)

lemma completes_or_shutdown [completes_intro]: "ok \<Longrightarrow> completes E (or_shutdown why ok)"
  by (simp add: or_shutdown_def completes_return)

lemma completes_on_result:
  assumes "safe E m" and "\<And>e. completes E (g e)" and "\<And>x. completes E (f x)"
  shows "completes E (on_result m g f)"
  using assms unfolding completes_def safe_def on_result_def
  by (simp split: prod.splits result.splits) (metis fst_conv)

lemma completes_if [completes_intro]:
  "completes E m \<Longrightarrow> completes E n \<Longrightarrow> completes E (if c then m else n)"
  by simp

lemma completes_option [completes_intro]:
  "completes E m \<Longrightarrow> (\<And>y. completes E (f y)) \<Longrightarrow>
     completes E (case x of None \<Rightarrow> m | Some y \<Rightarrow> f y)"
  by (cases x) auto

text \<open>
  The process has ended by the call to power off as its last act: that call did not return, or it
  returned and the process exited with status 1.
\<close>

fun halted :: "env \<Rightarrow> trace \<Rightarrow> bool" where
  "halted E (Power_Off why # t) = (\<not> reboot_returns (os E) t)"
| "halted E (Exit_Process code # Power_Off why # t) = (code = 1 \<and> reboot_returns (os E) t)"
| "halted E t = False"

lemma halted_iff:
  "halted E t \<longleftrightarrow> (\<exists>why u. t = Power_Off why # u \<and> \<not> reboot_returns (os E) u \<or>
     t = Exit_Process 1 # Power_Off why # u \<and> reboot_returns (os E) u)"
  by (cases "(E, t)" rule: halted.cases) auto

text \<open>A program that returns a value or ends the process by powering the machine off.\<close>

definition fail_closed :: "env \<Rightarrow> ('e, 'a) io \<Rightarrow> bool" where
  "fail_closed E m \<longleftrightarrow>
     (\<forall>t. case m E t of (Ok x, t') \<Rightarrow> True | (Err e, t') \<Rightarrow> False | (Panic, t') \<Rightarrow> halted E t')"

named_theorems fail_closed_intro \<open>programs that return a value or power the machine off\<close>

lemma fail_closedD:
  assumes "fail_closed E m" and "m E t = (r, t')"
  shows "(\<exists>x. r = Ok x) \<or> r = Panic \<and> halted E t'"
proof -
  have "case m E t of (Ok x, t') \<Rightarrow> True | (Err e, t') \<Rightarrow> False | (Panic, t') \<Rightarrow> halted E t'"
    using assms(1) unfolding fail_closed_def by (rule spec)
  then show ?thesis using assms(2) by (cases r) simp_all
qed

lemma completes_fail_closed:
  assumes "completes E m"
  shows "fail_closed E m"
  unfolding fail_closed_def
proof
  fix t
  obtain x t' where "m E t = (Ok x, t')" using assms completesD by blast
  then show "case m E t of (Ok x, t') \<Rightarrow> True | (Err e, t') \<Rightarrow> False | (Panic, t') \<Rightarrow> halted E t'"
    by simp
qed

lemma fail_closed_return [fail_closed_intro]: "fail_closed E (return x)"
  by (simp add: fail_closed_def)

lemma fail_closed_call [fail_closed_intro]: "fail_closed E (call ev answer)"
  by (simp add: fail_closed_def)

lemma fail_closed_panic_shutdown [fail_closed_intro]: "fail_closed E (panic_shutdown why)"
  by (simp add: fail_closed_def panic_shutdown_def)

lemma fail_closed_if [fail_closed_intro]:
  "fail_closed E m \<Longrightarrow> fail_closed E n \<Longrightarrow> fail_closed E (if c then m else n)"
  by simp

lemma fail_closed_or_shutdown [fail_closed_intro]: "fail_closed E (or_shutdown why ok)"
  unfolding or_shutdown_def by (intro fail_closed_intro)

lemma fail_closed_option [fail_closed_intro]:
  "fail_closed E m \<Longrightarrow> (\<And>y. fail_closed E (f y)) \<Longrightarrow>
     fail_closed E (case x of None \<Rightarrow> m | Some y \<Rightarrow> f y)"
  by (cases x) auto

lemma fail_closed_with_lib [fail_closed_intro]: "fail_closed E (f (lib E)) \<Longrightarrow> fail_closed E (with_lib f)"
  by (simp add: fail_closed_def)

lemma fail_closed_bind [fail_closed_intro]:
  assumes m: "fail_closed E m" and f: "\<And>x. fail_closed E (f x)"
  shows "fail_closed E (bind m f)"
  unfolding fail_closed_def
proof
  fix t
  obtain r u where mt: "m E t = (r, u)" by (metis surj_pair)
  show "case bind m f E t of (Ok x, t') \<Rightarrow> True | (Err e, t') \<Rightarrow> False | (Panic, t') \<Rightarrow> halted E t'"
    using fail_closedD [OF m mt]
  proof (elim disjE exE conjE)
    fix x assume "r = Ok x"
    then show ?thesis using f [of x] mt by (simp add: fail_closed_def)
  qed (simp add: mt)
qed

lemma fail_closed_on_result:
  assumes m: "safe E m" and g: "\<And>e. fail_closed E (g e)" and f: "\<And>x. fail_closed E (f x)"
  shows "fail_closed E (on_result m g f)"
  unfolding fail_closed_def
proof
  fix t
  obtain r u where mt: "m E t = (r, u)" by (metis surj_pair)
  show "case on_result m g f E t of (Ok x, t') \<Rightarrow> True | (Err e, t') \<Rightarrow> False | (Panic, t') \<Rightarrow> halted E t'"
    using safeD [OF m mt] f g mt by (cases r) (simp_all add: on_result_eq fail_closed_def)
qed

section \<open>An environment for concrete runs\<close>

text \<open>
  An outside in which every call succeeds and nothing is ever received: witnesses update the answers
  they need.
\<close>

definition toy_net :: net_env where
  "toy_net =
     \<lparr>clock_now = (\<lambda>t. 0), rand_ok = (\<lambda>t. True), rand_byte = (\<lambda>t i. 2), udp_bind_ok = (\<lambda>t. True),
      udp_send_ok = (\<lambda>t. True), udp_recv = (\<lambda>t. Recv_Timeout), tcp_connect = (\<lambda>t. Connected),
      tcp_write_ok = (\<lambda>t. True), tcp_read_ok = (\<lambda>t. False), tcp_byte = (\<lambda>t i. 0),
      x25519_generate = (\<lambda>t. Some (replicate 32 1)), client_build_ok = (\<lambda>t. True),
      http_get = (\<lambda>t url. No_Connection), http_date = (\<lambda>t. None)\<rparr>"

definition toy_os :: os_env where
  "toy_os =
     \<lparr>clock_set_ok = (\<lambda>t. True), mount_ok = (\<lambda>t. True), fs_ok = (\<lambda>t. True), read_text = (\<lambda>t. None),
      read_dir = (\<lambda>t. None), socket_ok = (\<lambda>t. True), ioctl_ok = (\<lambda>t. True), ioctl_out = (\<lambda>t xs i. 0),
      tls_config_ok = (\<lambda>t. True), current_exe = (\<lambda>t. None), spawn_pid = (\<lambda>t. Some 2),
      wait_pid = (\<lambda>t. 0), reboot_returns = (\<lambda>t. False), error_text = (\<lambda>t. []), exitinfo2 = (\<lambda>t. 0),
      listen_ok = (\<lambda>t. True)\<rparr>"

definition toy_env :: "net_env \<Rightarrow> env" where
  "toy_env n = \<lparr>lib = toy_lib, net = n, os = toy_os\<rparr>"

lemma toy_env_simps [simp]: "lib (toy_env n) = toy_lib" "net (toy_env n) = n" "os (toy_env n) = toy_os"
  by (simp_all add: toy_env_def)

end
