(* ===== verification/Roughtime.thy ===== *)
theory Roughtime
  imports Rt_Message Crypto_Lib
begin

text \<open>
  Verification of a Roughtime response (\<open>verify_roughtime_response\<close> of \<open>src/time.rs\<close>): the delegation
  signature under the root key, the response signature under the delegated key, the delegation
  interval and the Merkle path from the client's nonce to the signed root.

  The lemmas show that an accepted midpoint is bound to both signatures and to the nonce, that an
  honest server's answer for any leaf of its Merkle tree is accepted, and that accepting two nonces
  at one position of one signed tree exhibits a hash collision.
\<close>

section \<open>Errors\<close>

datatype rt_part = Response | Cert | Dele | Srep

datatype rt_error =
    Invalid_Message rt_part
  | Missing_Tag u32 rt_part
  | Bad_Root_Key
  | Bad_Delegation_Signature
  | Bad_Response_Signature
  | Bad_Size u32
  | Delegation_Not_Valid u64 u64 u64
  | Bad_Path_Length
  | Bad_Root_Length
  | Root_Mismatch
  | Index_Out_Of_Bounds

section \<open>The Merkle walk\<close>

text \<open>\<open>finish().as_ref()[0..32]\<close> of a SHA-512 digest, which has 64 bytes.\<close>

definition hash32 :: "crypto_lib \<Rightarrow> bytes \<Rightarrow> bytes" where
  "hash32 L m = take 32 (array_bytes (sha512 L m))"

definition leaf_hash :: "crypto_lib \<Rightarrow> bytes \<Rightarrow> bytes" where
  "leaf_hash L nonce = hash32 L (0x00 # nonce)"

definition node_hash :: "crypto_lib \<Rightarrow> bytes \<Rightarrow> bytes \<Rightarrow> bytes" where
  "node_hash L left right = hash32 L (0x01 # left @ right)"

text \<open>The loop over \<open>path_bytes.chunks_exact(32)\<close>, with the current hash and the remaining index.\<close>

fun merkle_climb :: "crypto_lib \<Rightarrow> bytes \<Rightarrow> u32 \<Rightarrow> bytes list \<Rightarrow> bytes \<times> u32" where
  "merkle_climb L current idx [] = (current, idx)"
| "merkle_climb L current idx (sibling # path) =
     merkle_climb L
       (if idx AND 1 = 0 then node_hash L current sibling else node_hash L sibling current)
       (drop_bit 1 idx) path"

function chunks_exact :: "nat \<Rightarrow> bytes \<Rightarrow> bytes list" where
  "chunks_exact n xs =
     (if n = 0 \<or> length xs < n then [] else take n xs # chunks_exact n (drop n xs))"
  by pat_completeness auto
termination
  by (relation "measure (\<lambda>(n, xs). length xs)") auto

declare chunks_exact.simps [simp del]

section \<open>The verification\<close>

definition delegation_context :: bytes where
  "delegation_context = lit ''RoughTime v1 delegation signature--'' @ [0x00]"

definition response_context :: bytes where
  "response_context = lit ''RoughTime v1 response signature'' @ [0x00]"

text \<open>\<open>xs.try_into().map_err(...)\<close> to an array of \<open>n\<close> bytes.\<close>

definition try_array :: "nat \<Rightarrow> 'e \<Rightarrow> bytes \<Rightarrow> ('e, bytes) result" where
  "try_array n e xs = (if length xs = n then Ok xs else Err e)"

definition verify_roughtime_response ::
  "crypto_lib \<Rightarrow> bytes \<Rightarrow> bytes \<Rightarrow> bytes \<Rightarrow> (rt_error, u64) result" where
  "verify_roughtime_response L data nonce pubkey_base64 =
     and_then (ok_or (Invalid_Message Response) (rt_parse data)) (\<lambda>resp.
     and_then (ok_or (Missing_Tag TAG_CERT Response) (rt_get resp TAG_CERT)) (\<lambda>cert_bytes.
     and_then (ok_or (Missing_Tag TAG_SREP Response) (rt_get resp TAG_SREP)) (\<lambda>srep_bytes.
     and_then (ok_or (Missing_Tag TAG_SIG Response) (rt_get resp TAG_SIG)) (\<lambda>sig_bytes.
     and_then (ok_or (Invalid_Message Cert) (rt_parse cert_bytes)) (\<lambda>cert.
     and_then (ok_or (Missing_Tag TAG_DELE Cert) (rt_get cert TAG_DELE)) (\<lambda>dele_bytes.
     and_then (ok_or (Missing_Tag TAG_SIG Cert) (rt_get cert TAG_SIG)) (\<lambda>cert_sig_bytes.
     and_then (from_option Bad_Root_Key (base64_decode L pubkey_base64)) (\<lambda>root_pubkey_bytes.
     and_then (check Bad_Delegation_Signature
       (ed25519_verify L root_pubkey_bytes (delegation_context @ dele_bytes) cert_sig_bytes)) (\<lambda>_.
     and_then (ok_or (Invalid_Message Dele) (rt_parse dele_bytes)) (\<lambda>dele.
     and_then (ok_or (Missing_Tag TAG_PUBK Dele) (rt_get dele TAG_PUBK)) (\<lambda>online_pubkey.
     and_then (ok_or (Missing_Tag TAG_MINT Dele) (rt_get dele TAG_MINT)) (\<lambda>mint_bytes.
     and_then (ok_or (Missing_Tag TAG_MAXT Dele) (rt_get dele TAG_MAXT)) (\<lambda>maxt_bytes.
     and_then (try_array 8 (Bad_Size TAG_MINT) mint_bytes) (\<lambda>mint8. let mint = u64_le mint8 in
     and_then (try_array 8 (Bad_Size TAG_MAXT) maxt_bytes) (\<lambda>maxt8. let maxt = u64_le maxt8 in
     and_then (check Bad_Response_Signature
       (ed25519_verify L online_pubkey (response_context @ srep_bytes) sig_bytes)) (\<lambda>_.
     and_then (ok_or (Invalid_Message Srep) (rt_parse srep_bytes)) (\<lambda>srep.
     and_then (ok_or (Missing_Tag TAG_ROOT Srep) (rt_get srep TAG_ROOT)) (\<lambda>root_hash.
     and_then (ok_or (Missing_Tag TAG_MIDP Srep) (rt_get srep TAG_MIDP)) (\<lambda>midpoint_bytes.
     and_then (ok_or (Missing_Tag TAG_RADI Srep) (rt_get srep TAG_RADI)) (\<lambda>radius_bytes.
     and_then (try_array 8 (Bad_Size TAG_MIDP) midpoint_bytes) (\<lambda>midp8. let midpoint = u64_le midp8 in
     and_then (try_array 4 (Bad_Size TAG_RADI) radius_bytes) (\<lambda>_.
     if midpoint < mint \<or> midpoint > maxt then Err (Delegation_Not_Valid midpoint mint maxt) else
     and_then (ok_or (Missing_Tag TAG_INDX Response) (rt_get resp TAG_INDX)) (\<lambda>index_bytes.
     and_then (ok_or (Missing_Tag TAG_PATH Response) (rt_get resp TAG_PATH)) (\<lambda>path_bytes.
     and_then (try_array 4 (Bad_Size TAG_INDX) index_bytes) (\<lambda>indx4. let index = u32_le indx4 in
     if length path_bytes mod 32 \<noteq> 0 then Err Bad_Path_Length else
     let (current_hash, idx) =
       merkle_climb L (leaf_hash L nonce) index (chunks_exact 32 path_bytes) in
     if length root_hash < 32 then Err Bad_Root_Length else
     and_then (slice root_hash 0 32) (\<lambda>root32.
     if current_hash \<noteq> root32 then Err Root_Mismatch else
     if idx \<noteq> 0 then Err Index_Out_Of_Bounds else
     Ok midpoint))))))))))))))))))))))))))"

section \<open>No panic\<close>

lemma length_hash32 [simp]: "length (hash32 L m) = 32"
  by (simp add: hash32_def)

lemma length_leaf_hash [simp]: "length (leaf_hash L n) = 32"
  by (simp add: leaf_hash_def)

lemma length_node_hash [simp]: "length (node_hash L x y) = 32"
  by (simp add: node_hash_def)

lemma try_array_eq_Ok [simp]: "try_array n e xs = Ok ys \<longleftrightarrow> length xs = n \<and> ys = xs"
  by (auto simp: try_array_def)

lemma try_array_not_Panic [simp]: "try_array n e xs \<noteq> Panic"
  by (simp add: try_array_def)

lemma try_array_exact [simp]: "length xs = n \<Longrightarrow> try_array n e xs = Ok xs"
  by (simp add: try_array_def)

lemma rt_get_parsed: "rt_parse data = Ok m \<Longrightarrow> rt_get m tag \<noteq> Panic"
  by (rule rt_get_no_panic) (rule rt_parse_wf)

lemma verify_roughtime_no_panic [no_panic]:
  "verify_roughtime_response L data nonce key \<noteq> Panic"
  by (auto simp: verify_roughtime_response_def Let_def and_then_eq_Panic rt_get_parsed
        rt_parse_not_panic split: prod.splits if_splits)

section \<open>The Merkle tree\<close>

text \<open>
  The tree a server builds over the nonces of one batch, \<open>2 ^ d\<close> of them: its root and the path of
  leaf \<open>i\<close>, lowest sibling first.
\<close>

fun merkle_root :: "crypto_lib \<Rightarrow> nat \<Rightarrow> bytes list \<Rightarrow> bytes" where
  "merkle_root L 0 ns = leaf_hash L (hd ns)"
| "merkle_root L (Suc d) ns =
     node_hash L (merkle_root L d (take (2 ^ d) ns)) (merkle_root L d (drop (2 ^ d) ns))"

fun merkle_path :: "crypto_lib \<Rightarrow> nat \<Rightarrow> bytes list \<Rightarrow> nat \<Rightarrow> bytes list" where
  "merkle_path L 0 ns i = []"
| "merkle_path L (Suc d) ns i =
     (if i < 2 ^ d
      then merkle_path L d (take (2 ^ d) ns) i @ [merkle_root L d (drop (2 ^ d) ns)]
      else merkle_path L d (drop (2 ^ d) ns) (i - 2 ^ d) @ [merkle_root L d (take (2 ^ d) ns)])"

lemma length_merkle_root [simp]: "length (merkle_root L d ns) = 32"
  by (cases d) auto

lemma length_merkle_path [simp]: "length (merkle_path L d ns i) = d"
  by (induction L d ns i rule: merkle_path.induct) auto

lemma merkle_path_widths: "\<forall>s\<in>set (merkle_path L d ns i). length s = 32"
  by (induction L d ns i rule: merkle_path.induct) auto

lemma merkle_climb_snoc:
  "merkle_climb L c k (p @ [s]) =
     (case merkle_climb L c k p of (c', k') \<Rightarrow> merkle_climb L c' k' [s])"
  by (induction L c k p rule: merkle_climb.induct) auto

lemma merkle_climb_index: "snd (merkle_climb L c k p) = drop_bit (length p) k"
  by (induction L c k p rule: merkle_climb.induct) (auto simp: ac_simps)

lemma low_bit_of_nat: "((of_nat n :: u32) AND 1 = 0) \<longleftrightarrow> even n"
  by (simp add: and_one_eq mod2_eq_if)

lemma drop_bit_of_nat: "n < 2 ^ 32 \<Longrightarrow> drop_bit 1 (of_nat n :: u32) = of_nat (n div 2)"
  by (simp add: word_unat_eq_iff unat_div unat_of_nat drop_bit_Suc)

lemma merkle_climb_path:
  "length ns = 2 ^ d \<Longrightarrow> i < 2 ^ d \<Longrightarrow> i + 2 ^ d * k < 2 ^ 32 \<Longrightarrow>
     merkle_climb L (leaf_hash L (ns ! i)) (of_nat (i + 2 ^ d * k)) (merkle_path L d ns i) =
       (merkle_root L d ns, of_nat k)"
proof (induction d arbitrary: ns i k)
  case 0
  then show ?case by (cases ns) auto
next
  case (Suc d)
  show ?case
  proof (cases "i < 2 ^ d")
    case True
    have climb: "merkle_climb L (leaf_hash L (take (2 ^ d) ns ! i)) (of_nat (i + 2 ^ d * (2 * k)))
        (merkle_path L d (take (2 ^ d) ns) i) = (merkle_root L d (take (2 ^ d) ns), of_nat (2 * k))"
      using Suc.prems True by (intro Suc.IH) auto
    have eq: "i + 2 ^ d * (2 * k) = i + 2 ^ Suc d * k" by simp
    have "2 * k \<le> 2 ^ d * (2 * k)" by simp
    then have "2 * k < 2 ^ 32" using Suc.prems(3) eq by linarith
    then show ?thesis
      using True climb low_bit_of_nat [of "2 * k"] drop_bit_of_nat [of "2 * k"]
      by (simp add: merkle_climb_snoc eq del: of_nat_add of_nat_mult)
  next
    case False
    have eq: "i - 2 ^ d + 2 ^ d * (2 * k + 1) = i + 2 ^ Suc d * k" using False by simp
    have climb: "merkle_climb L (leaf_hash L (drop (2 ^ d) ns ! (i - 2 ^ d)))
        (of_nat (i - 2 ^ d + 2 ^ d * (2 * k + 1))) (merkle_path L d (drop (2 ^ d) ns) (i - 2 ^ d)) =
        (merkle_root L d (drop (2 ^ d) ns), of_nat (2 * k + 1))"
      using Suc.prems False by (intro Suc.IH) (auto simp: eq)
    have leaf: "drop (2 ^ d) ns ! (i - 2 ^ d) = ns ! i"
      using Suc.prems False by simp
    have "m \<le> 2 ^ d * m" for m :: nat by simp
    then have "2 * k + 1 \<le> 2 ^ d * (2 * k + 1)" .
    then have "2 * k + 1 < 2 ^ 32" using Suc.prems(3) eq by linarith
    then show ?thesis
      using False climb [unfolded eq leaf]
        low_bit_of_nat [of "2 * k + 1"] drop_bit_of_nat [of "2 * k + 1"]
      by (simp add: merkle_climb_snoc del: of_nat_add of_nat_mult of_nat_Suc)
  qed
qed

section \<open>The signed tree\<close>

text \<open>
  The protocol's tree, independently of how the code walks it: a leaf for a nonce, a subtree of which
  only the digest is known, or a node over two subtrees.
\<close>

datatype hash_tree = Nonce bytes | Known bytes | Fork hash_tree hash_tree

fun tree_digest :: "crypto_lib \<Rightarrow> hash_tree \<Rightarrow> bytes" where
  "tree_digest L (Nonce n) = take 32 (array_bytes (sha512 L ([0x00] @ n)))"
| "tree_digest L (Known h) = h"
| "tree_digest L (Fork l r) = take 32 (array_bytes (sha512 L ([0x01] @ tree_digest L l @ tree_digest L r)))"

text \<open>
  The tree in which the nonce is leaf number \<open>i\<close>, counted from the left, and of which otherwise the
  digests of the subtrees beside its branch are known, from the top.
\<close>

fun nonce_at :: "bytes \<Rightarrow> nat \<Rightarrow> bytes list \<Rightarrow> hash_tree" where
  "nonce_at nonce i [] = Nonce nonce"
| "nonce_at nonce i (s # ss) =
     (if i < 2 ^ length ss then Fork (nonce_at nonce i ss) (Known s)
      else Fork (Known s) (nonce_at nonce (i - 2 ^ length ss) ss))"

text \<open>The walk computes the digest of that tree.\<close>

lemma unat_drop: "unat (drop_bit n (w :: 'a::len word)) = unat w div 2 ^ n"
  by (simp only: unat_drop_bit_eq) (simp only: drop_bit_eq_div)

lemma low_bit_drop: "(drop_bit n (k :: u32) AND 1 = 0) \<longleftrightarrow> even (unat k div 2 ^ n)"
proof -
  have "unat k div 2 ^ n < 2 ^ 32"
    using unsigned_less [where ?'a = nat, of k] by (intro le_less_trans [OF div_le_dividend]) simp
  then have "unat (drop_bit n k) = unat (of_nat (unat k div 2 ^ n) :: u32)"
    by (simp only: unat_drop unat_of_nat) simp
  then have "drop_bit n k = of_nat (unat k div 2 ^ n)" by (simp only: word_unat_eq_iff)
  then show ?thesis by (simp only: low_bit_of_nat)
qed

lemma merkle_climb_tree:
  "fst (merkle_climb L (leaf_hash L nonce) k p) =
     tree_digest L (nonce_at nonce (unat k mod 2 ^ length p) (rev p))"
proof (induction p rule: rev_induct)
  case Nil
  show ?case by (simp add: leaf_hash_def hash32_def)
next
  case (snoc s p)
  let ?n = "length p" and ?u = "unat k"
  have split: "?u mod 2 ^ Suc ?n = 2 ^ ?n * (?u div 2 ^ ?n mod 2) + ?u mod 2 ^ ?n"
    using mod_mult2_eq [of ?u "2 ^ ?n" 2] by (simp add: mult.commute)
  have below: "?u mod 2 ^ ?n < 2 ^ ?n" by simp
  obtain c idx where c: "merkle_climb L (leaf_hash L nonce) k p = (c, idx)" by (metis surj_pair)
  then have idx: "idx = drop_bit ?n k"
    using merkle_climb_index [of L "leaf_hash L nonce" k p] by simp
  have step: "fst (merkle_climb L (leaf_hash L nonce) k (p @ [s])) =
      (if even (?u div 2 ^ ?n) then node_hash L (fst (merkle_climb L (leaf_hash L nonce) k p)) s
       else node_hash L s (fst (merkle_climb L (leaf_hash L nonce) k p)))"
    by (simp add: merkle_climb_snoc c idx low_bit_drop)
  show ?case
  proof (cases "even (?u div 2 ^ ?n)")
    case True
    then have "?u mod 2 ^ Suc ?n = ?u mod 2 ^ ?n" using split by simp
    with True below show ?thesis
      unfolding step by (simp add: snoc.IH node_hash_def hash32_def)
  next
    case False
    then have "?u div 2 ^ ?n mod 2 = 1" by presburger
    then have "?u mod 2 ^ Suc ?n = 2 ^ ?n + ?u mod 2 ^ ?n" using split by simp
    with False show ?thesis
      unfolding step by (simp add: snoc.IH node_hash_def hash32_def)
  qed
qed

section \<open>What acceptance means\<close>

text \<open>A field of an encoded message, and a tag by its name, filled up with zeros.\<close>

definition rt_field :: "bytes \<Rightarrow> u32 \<Rightarrow> bytes \<Rightarrow> bool" where
  "rt_field data tag v \<longleftrightarrow>
     (\<exists>m. rt_wf m \<and> rt_encode m = data \<and> map_of (zip (rt_tags m) (rt_values m)) tag = Some v)"

definition tag_of :: "string \<Rightarrow> u32" where
  "tag_of name = of_nat (le_nat (lit name))"

text \<open>
  The evidence for a midpoint, as the protocol describes it and without the functions of the code: the
  response is an encoded message with a certificate, a signed part and its signature; the certificate has
  a delegation that verifies under the root key, with the online key and its interval; the signed part
  verifies under the online key and has the midpoint, within the interval, and the root; and the path
  consists of the digests beside the branch of the nonce, leaf number \<open>index\<close> of a tree with that root.
\<close>

definition rt_evidence ::
  "crypto_lib \<Rightarrow> bytes \<Rightarrow> bytes \<Rightarrow> bytes \<Rightarrow> u64 \<Rightarrow> bytes \<Rightarrow> bytes \<Rightarrow> u32 \<Rightarrow> bytes \<Rightarrow> bool" where
  "rt_evidence L data nonce key midpoint dele srep index path \<longleftrightarrow>
     (\<exists>cert sig cert_sig root_key online mint maxt radi root.
        rt_field data (tag_of ''CERT'') cert \<and> rt_field data (tag_of ''SREP'') srep \<and>
        rt_field data (tag_of ''SIG'') sig \<and>
        rt_field cert (tag_of ''DELE'') dele \<and> rt_field cert (tag_of ''SIG'') cert_sig \<and>
        base64_decode L key = Some root_key \<and>
        ed25519_verify L root_key (lit ''RoughTime v1 delegation signature--'' @ [0x00] @ dele) cert_sig \<and>
        rt_field dele (tag_of ''PUBK'') online \<and>
        rt_field dele (tag_of ''MINT'') (to_le 8 (unat (mint :: u64))) \<and>
        rt_field dele (tag_of ''MAXT'') (to_le 8 (unat (maxt :: u64))) \<and>
        ed25519_verify L online (lit ''RoughTime v1 response signature'' @ [0x00] @ srep) sig \<and>
        rt_field srep (tag_of ''ROOT'') root \<and> rt_field srep (tag_of ''MIDP'') (to_le 8 (unat midpoint)) \<and>
        rt_field srep (tag_of ''RADI'') radi \<and> length radi = 4 \<and>
        mint \<le> midpoint \<and> midpoint \<le> maxt \<and>
        rt_field data (tag_of ''INDX'') (to_le 4 (unat index)) \<and> rt_field data (tag_of ''PATH'') path \<and>
        32 \<le> length root \<and>
        (\<exists>siblings. path = concat siblings \<and> list_all (\<lambda>s. length s = 32) siblings \<and>
           unat index < 2 ^ length siblings \<and>
           tree_digest L (nonce_at nonce (unat index) (rev siblings)) = take 32 root))"

text \<open>The same with the functions of the code.\<close>

definition rt_checked ::
  "crypto_lib \<Rightarrow> bytes \<Rightarrow> bytes \<Rightarrow> bytes \<Rightarrow> u64 \<Rightarrow> bytes \<Rightarrow> bytes \<Rightarrow> u32 \<Rightarrow> bytes \<Rightarrow> bool" where
  "rt_checked L data nonce key midpoint dele srep index path \<longleftrightarrow>
     (\<exists>cert sig cert_sig root_key online mint maxt radi root.
        rt_field data TAG_CERT cert \<and> rt_field data TAG_SREP srep \<and> rt_field data TAG_SIG sig \<and>
        rt_field cert TAG_DELE dele \<and> rt_field cert TAG_SIG cert_sig \<and>
        base64_decode L key = Some root_key \<and>
        ed25519_verify L root_key (delegation_context @ dele) cert_sig \<and>
        rt_field dele TAG_PUBK online \<and>
        rt_field dele TAG_MINT (to_le 8 (unat (mint :: u64))) \<and>
        rt_field dele TAG_MAXT (to_le 8 (unat (maxt :: u64))) \<and>
        ed25519_verify L online (response_context @ srep) sig \<and>
        rt_field srep TAG_ROOT root \<and> rt_field srep TAG_MIDP (to_le 8 (unat midpoint)) \<and>
        rt_field srep TAG_RADI radi \<and> length radi = 4 \<and>
        mint \<le> midpoint \<and> midpoint \<le> maxt \<and>
        rt_field data TAG_INDX (to_le 4 (unat index)) \<and> rt_field data TAG_PATH path \<and>
        32 \<le> length root \<and> length path mod 32 = 0 \<and>
        merkle_climb L (leaf_hash L nonce) index (chunks_exact 32 path) = (take 32 root, 0))"

lemma rt_field_parse: "rt_field data tag v \<longleftrightarrow> (\<exists>m. rt_parse data = Ok m \<and> rt_get m tag = Ok v)"
  by (auto simp: rt_field_def rt_codec.dec_iff rt_get_map_of split: option.splits)

lemma tag_of_eqs:
  "tag_of ''CERT'' = TAG_CERT" "tag_of ''SREP'' = TAG_SREP" "tag_of ''SIG'' = TAG_SIG"
  "tag_of ''DELE'' = TAG_DELE" "tag_of ''PUBK'' = TAG_PUBK" "tag_of ''MINT'' = TAG_MINT"
  "tag_of ''MAXT'' = TAG_MAXT" "tag_of ''ROOT'' = TAG_ROOT" "tag_of ''MIDP'' = TAG_MIDP"
  "tag_of ''RADI'' = TAG_RADI" "tag_of ''INDX'' = TAG_INDX" "tag_of ''PATH'' = TAG_PATH"
  by (simp_all add: tag_of_def tag_defs)

lemma length_concat_widths: "\<forall>x\<in>set xs. length x = n \<Longrightarrow> length (concat xs) = n * length xs"
  by (induction xs) auto

lemma chunks_exact_concat:
  "0 < n \<Longrightarrow> \<forall>x\<in>set xs. length x = n \<Longrightarrow> chunks_exact n (concat xs) = xs"
  by (induction xs) (simp_all add: chunks_exact.simps)

lemma chunks_exact_widths: "\<forall>x\<in>set (chunks_exact n xs). length x = n"
proof (induction n xs rule: chunks_exact.induct)
  case (1 n xs)
  show ?case
  proof (cases "n = 0 \<or> length xs < n")
    case True
    then show ?thesis by (simp add: chunks_exact.simps [of n xs])
  next
    case False
    then show ?thesis using "1" [OF False] by (simp add: chunks_exact.simps [of n xs])
  qed
qed

lemma concat_chunks_exact: "0 < n \<Longrightarrow> length xs mod n = 0 \<Longrightarrow> concat (chunks_exact n xs) = xs"
proof (induction n xs rule: chunks_exact.induct)
  case (1 n xs)
  show ?case
  proof (cases "length xs < n")
    case True
    then show ?thesis using 1 by (simp add: chunks_exact.simps [of n "[]"])
  next
    case False
    then have "length (drop n xs) mod n = 0" using 1 by (simp add: le_mod_geq)
    then show ?thesis using 1 False by (simp add: chunks_exact.simps [of n xs])
  qed
qed

lemma drop_bit_eq_0_iff: "drop_bit n (w :: 'a::len word) = 0 \<longleftrightarrow> unat w < 2 ^ n"
proof -
  have "drop_bit n w = 0 \<longleftrightarrow> unat (drop_bit n w) = 0"
    using word_unat_eq_iff [of "drop_bit n w" 0] by (simp only: unsigned_0)
  also have "\<dots> \<longleftrightarrow> unat w < 2 ^ n" by (simp only: unat_drop div_eq_0_iff) simp
  finally show ?thesis .
qed

text \<open>The walk over a path of whole digests ends at the root exactly for a tree with the nonce.\<close>

lemma path_tree:
  "length path mod 32 = 0 \<and> merkle_climb L (leaf_hash L nonce) index (chunks_exact 32 path) = (root, 0) \<longleftrightarrow>
   (\<exists>siblings. path = concat siblings \<and> list_all (\<lambda>s. length s = 32) siblings \<and>
      unat index < 2 ^ length siblings \<and>
      tree_digest L (nonce_at nonce (unat index) (rev siblings)) = root)"
proof -
  have climb: "merkle_climb L (leaf_hash L nonce) index p = (root, 0) \<longleftrightarrow>
      unat index < 2 ^ length p \<and> tree_digest L (nonce_at nonce (unat index) (rev p)) = root" for p
    using merkle_climb_tree [of L nonce index p] merkle_climb_index [of L "leaf_hash L nonce" index p]
    by (auto simp: prod_eq_iff drop_bit_eq_0_iff)
  show ?thesis
    unfolding climb list_all_iff
    using chunks_exact_widths [of 32 path] concat_chunks_exact [of 32 path]
      chunks_exact_concat [of 32] length_concat_widths [of _ 32]
    by (metis mod_mult_self1_is_0 zero_less_numeral)
qed

lemma rt_evidence_checked:
  "rt_evidence L data nonce key midpoint dele srep index path \<longleftrightarrow>
     rt_checked L data nonce key midpoint dele srep index path"
  unfolding rt_evidence_def rt_checked_def tag_of_eqs delegation_context_def response_context_def append_assoc
    path_tree ..

lemma rt_field_get: "rt_parse data = Ok m \<Longrightarrow> rt_field data tag v \<longleftrightarrow> rt_get m tag = Ok v"
  by (auto simp: rt_field_parse)

lemma le8_value: "length v = 8 \<Longrightarrow> to_le 8 (unat (u64_le v)) = v"
  by (simp add: unat_u64_le to_le_le_nat)

lemma rt_evidence_if_accepted:
  assumes "verify_roughtime_response L data nonce key = Ok midpoint"
  shows "\<exists>dele srep index path. rt_evidence L data nonce key midpoint dele srep index path"
proof -
  from assms obtain resp cert sig srep cert_m dele cert_sig root_key dele_m online mint maxt srep_m
      root midp radi indx path
    where "rt_parse data = Ok resp" "rt_get resp TAG_CERT = Ok cert" "rt_get resp TAG_SREP = Ok srep"
      "rt_get resp TAG_SIG = Ok sig" "rt_parse cert = Ok cert_m" "rt_get cert_m TAG_DELE = Ok dele"
      "rt_get cert_m TAG_SIG = Ok cert_sig" "base64_decode L key = Some root_key"
      "ed25519_verify L root_key (delegation_context @ dele) cert_sig" "rt_parse dele = Ok dele_m"
      "rt_get dele_m TAG_PUBK = Ok online" "rt_get dele_m TAG_MINT = Ok mint"
      "rt_get dele_m TAG_MAXT = Ok maxt" "length mint = 8" "length maxt = 8"
      "ed25519_verify L online (response_context @ srep) sig" "rt_parse srep = Ok srep_m"
      "rt_get srep_m TAG_ROOT = Ok root" "rt_get srep_m TAG_MIDP = Ok midp"
      "rt_get srep_m TAG_RADI = Ok radi" "length midp = 8" "length radi = 4"
      "u64_le mint \<le> u64_le midp" "u64_le midp \<le> u64_le maxt" "midpoint = u64_le midp"
      "rt_get resp TAG_INDX = Ok indx" "rt_get resp TAG_PATH = Ok path" "length indx = 4"
      "32 dvd length path" "32 \<le> length root"
      "fst (merkle_climb L (leaf_hash L nonce) (u32_le indx) (chunks_exact 32 path)) = take 32 root"
      "snd (merkle_climb L (leaf_hash L nonce) (u32_le indx) (chunks_exact 32 path)) = 0"
    by (clarsimp simp: verify_roughtime_response_def Let_def if_Err_eq_Ok not_less case_prod_beta)
  note facts = this
  note fields = facts(1,5,10,17) [THEN rt_field_get]
  have eqs: "to_le 8 (unat (u64_le mint)) = mint" "to_le 8 (unat (u64_le maxt)) = maxt"
    "to_le 8 (unat midpoint) = midp" "to_le 4 (unat (u32_le indx)) = indx"
    using facts by (simp_all only: le8_value to_le_u32_le)
  have "rt_evidence L data nonce key midpoint dele srep (u32_le indx) path"
    unfolding rt_evidence_checked rt_checked_def
    by (rule exI [of _ cert], rule exI [of _ sig], rule exI [of _ cert_sig],
        rule exI [of _ root_key], rule exI [of _ online], rule exI [of _ "u64_le mint"],
        rule exI [of _ "u64_le maxt"], rule exI [of _ radi], rule exI [of _ root],
        simp only: fields facts(2-4,6-9,11-16,18-22,26-28) facts(23,24) [folded facts(25)]
          facts(29) [THEN dvd_imp_mod_0] facts(30-32)
          eqs prod_eq_iff fst_conv snd_conv simp_thms)
  then show ?thesis by blast
qed

lemma accepted_if_rt_evidence:
  assumes "rt_evidence L data nonce key midpoint dele srep index path"
  shows "verify_roughtime_response L data nonce key = Ok midpoint"
proof -
  from assms obtain resp cert sig cert_m cert_sig root_key dele_m online mint maxt srep_m root radi
    where "rt_parse data = Ok resp" "rt_get resp TAG_CERT = Ok cert" "rt_get resp TAG_SREP = Ok srep"
      "rt_get resp TAG_SIG = Ok sig" "rt_parse cert = Ok cert_m" "rt_get cert_m TAG_DELE = Ok dele"
      "rt_get cert_m TAG_SIG = Ok cert_sig" "base64_decode L key = Some root_key"
      "ed25519_verify L root_key (delegation_context @ dele) cert_sig" "rt_parse dele = Ok dele_m"
      "rt_get dele_m TAG_PUBK = Ok online" "rt_get dele_m TAG_MINT = Ok (to_le 8 (unat (mint :: u64)))"
      "rt_get dele_m TAG_MAXT = Ok (to_le 8 (unat (maxt :: u64)))"
      "ed25519_verify L online (response_context @ srep) sig" "rt_parse srep = Ok srep_m"
      "rt_get srep_m TAG_ROOT = Ok root" "rt_get srep_m TAG_MIDP = Ok (to_le 8 (unat midpoint))"
      "rt_get srep_m TAG_RADI = Ok radi" "length radi = 4" "mint \<le> midpoint" "midpoint \<le> maxt"
      "rt_get resp TAG_INDX = Ok (to_le 4 (unat index))" "rt_get resp TAG_PATH = Ok path"
      "length path mod 32 = 0" "32 \<le> length root"
      "merkle_climb L (leaf_hash L nonce) index (chunks_exact 32 path) = (take 32 root, 0)"
    unfolding rt_evidence_checked rt_checked_def rt_field_parse by auto
  then show ?thesis
    by (simp add: verify_roughtime_response_def Let_def not_less)
qed

lemma rt_evidence_iff:
  "verify_roughtime_response L data nonce key = Ok midpoint \<longleftrightarrow>
     (\<exists>dele srep index path. rt_evidence L data nonce key midpoint dele srep index path)"
  using rt_evidence_if_accepted accepted_if_rt_evidence by blast

section \<open>An honest server is accepted\<close>

text \<open>
  A server as the protocol describes it: a delegated key with its interval, signing functions that
  the library's verification accepts, and a batch of \<open>2 ^ depth\<close> nonces under one Merkle root.
\<close>

record honest_server =
  root_sign :: "bytes \<Rightarrow> bytes"
  online_sign :: "bytes \<Rightarrow> bytes"
  online_key :: bytes
  mint_time :: u64
  maxt_time :: u64
  midp_time :: u64
  radius :: u32
  depth :: nat
  nonces :: "bytes list"

definition honest_dele :: "honest_server \<Rightarrow> bytes" where
  "honest_dele s = rt_encode (rt_msg
     [(TAG_PUBK, online_key s), (TAG_MINT, to_le 8 (unat (mint_time s))),
      (TAG_MAXT, to_le 8 (unat (maxt_time s)))])"

definition honest_cert :: "honest_server \<Rightarrow> bytes" where
  "honest_cert s = rt_encode (rt_msg
     [(TAG_SIG, root_sign s (delegation_context @ honest_dele s)), (TAG_DELE, honest_dele s)])"

definition honest_srep :: "crypto_lib \<Rightarrow> honest_server \<Rightarrow> bytes" where
  "honest_srep L s = rt_encode (rt_msg
     [(TAG_RADI, to_le 4 (unat (radius s))), (TAG_MIDP, to_le 8 (unat (midp_time s))),
      (TAG_ROOT, merkle_root L (depth s) (nonces s))])"

definition honest_response :: "crypto_lib \<Rightarrow> honest_server \<Rightarrow> nat \<Rightarrow> bytes" where
  "honest_response L s i = rt_encode (rt_msg
     [(TAG_SIG, online_sign s (response_context @ honest_srep L s)),
      (TAG_PATH, concat (merkle_path L (depth s) (nonces s) i)),
      (TAG_SREP, honest_srep L s), (TAG_CERT, honest_cert s), (TAG_INDX, to_le 4 i)])"

definition honest_ok :: "crypto_lib \<Rightarrow> bytes \<Rightarrow> honest_server \<Rightarrow> bool" where
  "honest_ok L key s \<longleftrightarrow>
     (\<exists>root_key. base64_decode L key = Some root_key \<and>
        (\<forall>m. ed25519_verify L root_key m (root_sign s m))) \<and>
     (\<forall>m. ed25519_verify L (online_key s) m (online_sign s m)) \<and>
     (\<forall>m. length (root_sign s m) = 64) \<and> (\<forall>m. length (online_sign s m) = 64) \<and>
     length (online_key s) = 32 \<and> mint_time s \<le> midp_time s \<and> midp_time s \<le> maxt_time s \<and>
     depth s < 32 \<and> length (nonces s) = 2 ^ depth s"

lemma rt_field_msg:
  "rt_fields_ok fs \<Longrightarrow> rt_field (rt_encode (rt_msg fs)) tag v \<longleftrightarrow> map_of fs tag = Some v"
  by (simp add: rt_field_parse rt_parse_msg rt_get_msg split: option.split)

lemma honest_dele_ok:
  assumes "honest_ok L key s"
  shows "rt_field (honest_dele s) tag v \<longleftrightarrow>
      map_of [(TAG_PUBK, online_key s), (TAG_MINT, to_le 8 (unat (mint_time s))),
        (TAG_MAXT, to_le 8 (unat (maxt_time s)))] tag = Some v"
    and "length (honest_dele s) = 72"
  using assms unfolding honest_dele_def
  by (subst rt_field_msg, simp_all add: rt_fields_ok_def honest_ok_def length_rt_encode_msg)

lemma honest_cert_ok:
  assumes "honest_ok L key s"
  shows "rt_field (honest_cert s) tag v \<longleftrightarrow>
      map_of [(TAG_SIG, root_sign s (delegation_context @ honest_dele s)),
        (TAG_DELE, honest_dele s)] tag = Some v"
    and "length (honest_cert s) = 152"
  using assms honest_dele_ok(2) [OF assms] unfolding honest_cert_def
  by (subst rt_field_msg, simp_all add: rt_fields_ok_def honest_ok_def length_rt_encode_msg)

lemma honest_srep_ok:
  shows "rt_field (honest_srep L s) tag v \<longleftrightarrow>
      map_of [(TAG_RADI, to_le 4 (unat (radius s))), (TAG_MIDP, to_le 8 (unat (midp_time s))),
        (TAG_ROOT, merkle_root L (depth s) (nonces s))] tag = Some v"
    and "length (honest_srep L s) = 68"
  unfolding honest_srep_def
  by (subst rt_field_msg, simp_all add: rt_fields_ok_def length_rt_encode_msg)

lemma honest_response_ok:
  assumes "honest_ok L key s"
  shows "rt_field (honest_response L s i) tag v \<longleftrightarrow>
      map_of [(TAG_SIG, online_sign s (response_context @ honest_srep L s)),
        (TAG_PATH, concat (merkle_path L (depth s) (nonces s) i)),
        (TAG_SREP, honest_srep L s), (TAG_CERT, honest_cert s), (TAG_INDX, to_le 4 i)] tag = Some v"
  unfolding honest_response_def
  by (rule rt_field_msg)
     (use assms honest_cert_ok(2) [OF assms] honest_srep_ok(2) [of L s]
       length_concat_widths [OF merkle_path_widths, of L "depth s" "nonces s" i]
       in \<open>simp add: rt_fields_ok_def honest_ok_def mod_mult_left_eq [symmetric]\<close>)

lemma honest_evidence:
  assumes ok: "honest_ok L key s" and i: "i < 2 ^ depth s"
  shows "rt_evidence L (honest_response L s i) (nonces s ! i) key (midp_time s) (honest_dele s)
    (honest_srep L s) (of_nat i) (concat (merkle_path L (depth s) (nonces s) i))"
proof -
  have "(2::nat) ^ depth s \<le> 2 ^ 32"
    using ok by (intro power_increasing) (auto simp: honest_ok_def)
  with i have i32: "i < 2 ^ 32" by (rule less_le_trans)
  have climb: "merkle_climb L (leaf_hash L (nonces s ! i)) (of_nat i) (merkle_path L (depth s) (nonces s) i)
      = (merkle_root L (depth s) (nonces s), 0)"
    using merkle_climb_path [of "nonces s" "depth s" i 0 L] i i32 ok by (simp add: honest_ok_def)
  have chunks: "chunks_exact 32 (concat (merkle_path L (depth s) (nonces s) i)) =
      merkle_path L (depth s) (nonces s) i"
    by (rule chunks_exact_concat) (simp_all add: merkle_path_widths)
  have path: "length (concat (merkle_path L (depth s) (nonces s) i)) mod 32 = 0"
    using length_concat_widths [OF merkle_path_widths, of L "depth s" "nonces s" i] by simp
  have idx4: "to_le 4 (unat (of_nat i :: u32)) = to_le 4 i" using i32 by (simp add: unat_of_nat)
  obtain root_key where key: "base64_decode L key = Some root_key"
    and rs: "\<forall>m. ed25519_verify L root_key m (root_sign s m)"
    using ok by (auto simp: honest_ok_def)
  show ?thesis
    unfolding rt_evidence_checked rt_checked_def
    by (rule exI [of _ "honest_cert s"],
        rule exI [of _ "online_sign s (response_context @ honest_srep L s)"],
        rule exI [of _ "root_sign s (delegation_context @ honest_dele s)"],
        rule exI [of _ root_key],
        rule exI [of _ "online_key s"], rule exI [of _ "mint_time s"], rule exI [of _ "maxt_time s"],
        rule exI [of _ "to_le 4 (unat (radius s))"],
        rule exI [of _ "merkle_root L (depth s) (nonces s)"],
        simp only: honest_response_ok [OF ok] honest_cert_ok(1) [OF ok] honest_dele_ok(1) [OF ok]
          honest_srep_ok(1) climb chunks path idx4)
       (use ok key rs in \<open>simp add: tag_defs honest_ok_def\<close>)
qed

section \<open>Binding\<close>

text \<open>
  The inputs that the walk hashes, leaf first. A collision between two walks is a pair of them,
  one from each, that differ and have the same truncated digest.
\<close>

fun climb_inputs :: "crypto_lib \<Rightarrow> bytes \<Rightarrow> u32 \<Rightarrow> bytes list \<Rightarrow> bytes list" where
  "climb_inputs L c k [] = []"
| "climb_inputs L c k (s # p) =
     (let m = (if k AND 1 = 0 then 0x01 # c @ s else 0x01 # s @ c)
      in m # climb_inputs L (hash32 L m) (drop_bit 1 k) p)"

definition walk_inputs :: "crypto_lib \<Rightarrow> bytes \<Rightarrow> u32 \<Rightarrow> bytes list \<Rightarrow> bytes list" where
  "walk_inputs L nonce k p = (0x00 # nonce) # climb_inputs L (leaf_hash L nonce) k p"

definition collide :: "crypto_lib \<Rightarrow> bytes list \<Rightarrow> bytes list \<Rightarrow> bool" where
  "collide L xs ys \<longleftrightarrow> list_ex (\<lambda>(x, y). x \<noteq> y \<and> hash32 L x = hash32 L y) (zip xs ys)"

lemma collide_Cons:
  "collide L (x # xs) (y # ys) \<longleftrightarrow> (x \<noteq> y \<and> hash32 L x = hash32 L y) \<or> collide L xs ys"
  by (simp add: collide_def)

lemma merkle_climb_inj:
  assumes "length p = length q"
    and "\<forall>x\<in>set p. length x = 32" and "\<forall>x\<in>set q. length x = 32"
    and "length c = 32" and "length d = 32"
    and "fst (merkle_climb L c k p) = fst (merkle_climb L d k q)"
  shows "(c = d \<and> p = q) \<or> collide L (climb_inputs L c k p) (climb_inputs L d k q)"
  using assms
proof (induction p q arbitrary: c d k rule: list_induct2)
  case (Cons x p y q)
  let ?m = "if k AND 1 = 0 then 0x01 # c @ x else 0x01 # x @ c"
  let ?n = "if k AND 1 = 0 then 0x01 # d @ y else 0x01 # y @ d"
  have step: "fst (merkle_climb L (hash32 L ?m) (drop_bit 1 k) p) =
      fst (merkle_climb L (hash32 L ?n) (drop_bit 1 k) q)"
    using Cons.prems(5) by (simp add: node_hash_def split: if_splits)
  have "(hash32 L ?m = hash32 L ?n \<and> p = q) \<or>
      collide L (climb_inputs L (hash32 L ?m) (drop_bit 1 k) p)
        (climb_inputs L (hash32 L ?n) (drop_bit 1 k) q)"
    by (rule Cons.IH) (use Cons.prems(1,2) step in simp_all)
  moreover have "?m = ?n \<Longrightarrow> c = d \<and> x = y"
    using Cons.prems(1-4) by (simp split: if_splits)
  ultimately show ?case
    by (auto simp: collide_Cons Let_def simp del: merkle_climb.simps)
qed simp

lemma length_chunks_exact: "0 < n \<Longrightarrow> length (chunks_exact n xs) = length xs div n"
proof (induction n xs rule: chunks_exact.induct)
  case (1 n xs)
  show ?case
  proof (cases "length xs < n")
    case True
    then show ?thesis by (simp add: chunks_exact.simps [of n xs])
  next
    case False
    then show ?thesis using 1 by (simp add: chunks_exact.simps [of n xs] le_div_geq)
  qed
qed

section \<open>A concrete server\<close>

definition toy_server :: honest_server where
  "toy_server =
     \<lparr>root_sign = (\<lambda>m. take 64 (m @ replicate 64 0)), online_sign = (\<lambda>m. take 64 (m @ replicate 64 0)),
      online_key = replicate 32 7, mint_time = 1000, maxt_time = 2000, midp_time = 1500, radius = 10,
      depth = 1, nonces = [replicate 64 1, replicate 64 2]\<rparr>"

lemma toy_server_ok: "honest_ok toy_lib [] toy_server"
  by (simp add: honest_ok_def toy_lib_def toy_server_def min_def)

lemma toy_evidence:
  "rt_evidence toy_lib (honest_response toy_lib toy_server 1) (replicate 64 2) [] 1500
     (honest_dele toy_server) (honest_srep toy_lib toy_server) 1
     (concat (merkle_path toy_lib 1 [replicate 64 1, replicate 64 2] 1))"
  using honest_evidence [OF toy_server_ok, of 1] by (simp add: toy_server_def)

section \<open>Properties\<close>

text \<open>
  C6. An accepted midpoint is authenticated end to end: the delegation verifies under the root key,
  the signed response under the delegated key, the midpoint is the one in the signed response and
  lies in the delegation interval, and the path holds the siblings of a hash tree whose leaf of the given
  index is the client's nonce and whose digest is the signed root. Conversely this evidence is enough for
  acceptance. The evidence is stated by the message format, the tags' names and the protocol's texts, and by
  a tree: it shares no function with the code.
\<close>

theorem roughtime_accepts_exactly_evidence:
  "verify_roughtime_response L data nonce key = Ok midpoint \<longleftrightarrow>
     (\<exists>dele srep index path. rt_evidence L data nonce key midpoint dele srep index path)"
  by (rule rt_evidence_iff)

text \<open>
  C7. The answer an honest server computes for any nonce of its batch is accepted, and the returned
  time is the server's midpoint, for Merkle trees of every depth below 32.
\<close>

theorem roughtime_accepts_honest_server:
  assumes "honest_ok L key s" and "i < 2 ^ depth s"
  shows "verify_roughtime_response L (honest_response L s i) (nonces s ! i) key = Ok (midp_time s)"
  using honest_evidence [OF assms] by (rule accepted_if_rt_evidence)

theorem roughtime_accepts_honest_server_witness:
  "\<exists>s. honest_ok toy_lib [] s \<and> 1 < (2::nat) ^ depth s \<and>
     verify_roughtime_response toy_lib (honest_response toy_lib s 1) (nonces s ! 1) [] = Ok 1500"
  using toy_server_ok roughtime_accepts_honest_server [OF toy_server_ok, of 1]
  by (intro exI [of _ toy_server]) (simp add: toy_server_def)

text \<open>
  C8. No equivocation: if responses with the same signed part are accepted for two nonces at the
  same index with paths of the same length, then the nonces and the paths are equal, or the inputs
  hashed by the two verifications contain a collision of SHA-512 truncated to 32 bytes.
\<close>

theorem roughtime_nonce_binding:
  assumes "rt_evidence L data nonce key t dele srep index path"
    and "rt_evidence L data' nonce' key' t' dele' srep index path'"
    and "length path = length path'"
  shows "(nonce = nonce' \<and> chunks_exact 32 path = chunks_exact 32 path') \<or>
    collide L (walk_inputs L nonce index (chunks_exact 32 path))
      (walk_inputs L nonce' index (chunks_exact 32 path'))"
proof -
  from assms(1,2) have "fst (merkle_climb L (leaf_hash L nonce) index (chunks_exact 32 path)) =
      fst (merkle_climb L (leaf_hash L nonce') index (chunks_exact 32 path'))"
    unfolding rt_evidence_checked rt_checked_def rt_field_parse by auto
  then have "(leaf_hash L nonce = leaf_hash L nonce' \<and> chunks_exact 32 path = chunks_exact 32 path') \<or>
      collide L (climb_inputs L (leaf_hash L nonce) index (chunks_exact 32 path))
        (climb_inputs L (leaf_hash L nonce') index (chunks_exact 32 path'))"
    using assms(3) by (intro merkle_climb_inj) (simp_all add: chunks_exact_widths length_chunks_exact)
  then show ?thesis
    by (auto simp: walk_inputs_def collide_Cons leaf_hash_def)
qed

theorem roughtime_nonce_binding_witness:
  "\<exists>data srep path. rt_evidence toy_lib data (replicate 64 2) [] 1500 (honest_dele toy_server) srep 1 path \<and>
     ((replicate 64 2 :: bytes) = replicate 64 2 \<and> chunks_exact 32 path = chunks_exact 32 path \<or>
      collide toy_lib (walk_inputs toy_lib (replicate 64 2) 1 (chunks_exact 32 path))
        (walk_inputs toy_lib (replicate 64 2) 1 (chunks_exact 32 path)))"
  using toy_evidence roughtime_nonce_binding [OF toy_evidence toy_evidence refl] by blast

text \<open>
  The index of an accepted response addresses a leaf of the tree the path spans: it is below 2
  to the number of siblings.
\<close>

theorem roughtime_index_in_tree:
  assumes "rt_evidence L data nonce key t dele srep index path"
  shows "unat index < 2 ^ (length path div 32)"
proof -
  from assms have "snd (merkle_climb L (leaf_hash L nonce) index (chunks_exact 32 path)) = 0"
    unfolding rt_evidence_checked rt_checked_def by auto
  then show ?thesis
    by (simp add: merkle_climb_index length_chunks_exact drop_bit_eq_0_iff)
qed

theorem roughtime_index_in_tree_witness:
  "\<exists>data dele srep path. rt_evidence toy_lib data (replicate 64 2) [] 1500 dele srep 1 path \<and>
     unat (1 :: u32) < 2 ^ (length path div 32)"
  using toy_evidence roughtime_index_in_tree [OF toy_evidence] by blast

end
