(* ===== verification/Roughtime_Query.thy ===== *)
theory Roughtime_Query
  imports Roughtime World
begin

text \<open>
  The Roughtime client of \<open>src/time.rs\<close>: the request, the exchange with one server over UDP with two
  attempts, the collection of all answers and their median (\<open>query_single_roughtime\<close>,
  \<open>query_roughtime\<close>). The tasks of \<open>query_roughtime\<close> share no state and each has its own socket, so
  the model runs them one after the other, in the order in which their results are awaited; the
  environment may answer each of them as it likes.

  The lemmas show that the request is the well-formed message the protocol asks for, that a time is
  only accepted with evidence for the nonce that was sent, that the answer of an honest server is
  accepted on either attempt, and that a majority of good midpoints bounds the median.
\<close>

section \<open>The servers\<close>

record roughtime_server =
  rs_name :: bytes
  rs_host :: bytes
  rs_port :: u16
  rs_pubkey_base64 :: bytes

definition server :: "string \<Rightarrow> string \<Rightarrow> u16 \<Rightarrow> string \<Rightarrow> roughtime_server" where
  "server name host port key =
     \<lparr>rs_name = lit name, rs_host = lit host, rs_port = port, rs_pubkey_base64 = lit key\<rparr>"

definition ROUGHTIME_SERVERS :: "roughtime_server list" where
  "ROUGHTIME_SERVERS =
    [server ''cloudflare'' ''roughtime.cloudflare.com'' 2003
       ''0GD7c3yP8xEc4Zl2zeuN2SlLvDVVocjsPSL8/Rl/7zg='',
     server ''roughtime.se'' ''roughtime.se'' 2002
       ''S3AzfZJ5CjSdkJ21ZJGbxqdYP/SoE8fXKY0+aicsehI='',
     server ''roughtime.int08h.com'' ''roughtime.int08h.com'' 2002
       ''AW5uAoTSTDfG5NfY1bTh08GUnOqlRb+HVhbJ3ODJvsE='',
     server ''sth1.roughtime.netnod.se'' ''sth1.roughtime.netnod.se'' 2002
       ''9l1JN4HakGnG44yyqyNNCb0HN0XfsysBbnl/kbZoZDc='',
     server ''sth2.roughtime.netnod.se'' ''sth2.roughtime.netnod.se'' 2002
       ''T/xxX4ERUBAOpt64Z8phWamKsASZxJ0VWuiPm3GS/8g='',
     server ''rough.time.nl'' ''rough.time.nl'' 2002
       ''v2CievhgKsxzlWPwIkYFUXeA51Akhkv5uhJCj1/kbiY='',
     server ''time.teax.dev'' ''time.teax.dev'' 2002
       ''84pMADvKUcSOq5RNbVRjVrjiU16Dxo2XV2Qkm+4DRTg='',
     server ''roughtime.sturdystatistics.com'' ''roughtime.sturdystatistics.com'' 2002
       ''NqIjwLopQn6yQChtE21Mb97dAbAPe5UOuTa0tOakgD8='',
     server ''ilimit-rt01.ilimit.cat'' ''ilimit-rt01.ilimit.cat'' 2002
       ''Oj8AxjzCYMlBicllTdeiJOEluLHdxijGd6sSaS993eo='',
     server ''ilimit-rt02.ilimit.cat'' ''ilimit-rt02.ilimit.cat'' 2002
       ''XTNZR7TIw4iMV2mNOVNPYzmWxXxg1DA16o2SYLp1k8k='']"

section \<open>One server\<close>

datatype rt_query_error =
    Rt_Bind_Failed
  | Rt_Entropy_Failed
  | Rt_No_Answer
  | Rt_Rejected rt_error
  | Rt_No_Valid_Responses

text \<open>\<open>req.resize(n, 0)\<close>.\<close>

definition resize :: "nat \<Rightarrow> bytes \<Rightarrow> bytes" where
  "resize n xs = take n xs @ replicate (n - length xs) 0"

definition rt_request :: "bytes \<Rightarrow> bytes" where
  "rt_request nonce =
     resize 1024
       (to_le 4 2 @ to_le 4 64 @ to_le 4 (unat TAG_NONC) @ to_le 4 (unat TAG_PAD) @ nonce)"

text \<open>\<open>aws_lc_rs::rand::fill\<close> of an array of \<open>n\<close> bytes.\<close>

definition rand_fill :: "'e \<Rightarrow> nat \<Rightarrow> ('e, bytes) io" where
  "rand_fill e n =
     bind (call (Rand_Fill n)
       (\<lambda>E t. if rand_ok (net E) t then Some (map (rand_byte (net E) t) [0..<n]) else None))
     (\<lambda>r. pure (from_option e r))"

text \<open>The retry loop: \<open>attempts\<close> more attempts, and the datagram received, if any.\<close>

fun rt_exchange :: "socket_addr \<Rightarrow> bytes \<Rightarrow> nat \<Rightarrow> ('e, bytes option) io" where
  "rt_exchange addr req 0 = return None"
| "rt_exchange addr req (Suc attempts) =
     bind (call (Udp_Send addr req) (\<lambda>E. udp_send_ok (net E))) (\<lambda>sent.
     if \<not> sent then bind (emit (Sleep_Ms 300)) (\<lambda>_. rt_exchange addr req attempts) else
     bind (call (Udp_Recv 2048 15000) (\<lambda>E. udp_recv (net E))) (\<lambda>answer.
     case answer of
       Received data \<Rightarrow> return (Some (take 2048 data))
     | Recv_Failed \<Rightarrow> bind (emit (Sleep_Ms 300)) (\<lambda>_. rt_exchange addr req attempts)
     | Recv_Timeout \<Rightarrow> bind (emit (Sleep_Ms 300)) (\<lambda>_. rt_exchange addr req attempts)))"

definition query_single_roughtime ::
  "ip_addr \<Rightarrow> u16 \<Rightarrow> bytes \<Rightarrow> (rt_query_error, u64) io" where
  "query_single_roughtime ip port pubkey_base64 =
     bind (call Udp_Bind (\<lambda>E. udp_bind_ok (net E))) (\<lambda>bound.
     bind (require Rt_Bind_Failed bound) (\<lambda>_.
     bind (rand_fill Rt_Entropy_Failed 64) (\<lambda>nonce.
     bind (rt_exchange (ip, port) (rt_request nonce) 2) (\<lambda>received.
     bind (pure (from_option Rt_No_Answer received)) (\<lambda>response_data.
     with_lib (\<lambda>L. pure (map_err Rt_Rejected
       (verify_roughtime_response L response_data nonce pubkey_base64))))))))"

section \<open>All servers\<close>

text \<open>Run a program and hand its value or its error on as a value.\<close>

definition attempt :: "('e, 'a) io \<Rightarrow> ('f, ('e, 'a) result) io" where
  "attempt m = on_result m (\<lambda>e. return (Err e)) (\<lambda>x. return (Ok x))"

fun collect_all :: "('a \<Rightarrow> ('e, 'b) io) \<Rightarrow> 'a list \<Rightarrow> ('f, ('e, 'b) result list) io" where
  "collect_all f [] = return []"
| "collect_all f (x # xs) =
     bind (attempt (f x)) (\<lambda>r. bind (collect_all f xs) (\<lambda>rs. return (r # rs)))"

fun valid_midpoints :: "('e, u64) result list \<Rightarrow> u64 list" where
  "valid_midpoints [] = []"
| "valid_midpoints (Ok m # rs) = m # valid_midpoints rs"
| "valid_midpoints (r # rs) = valid_midpoints rs"

text \<open>The median of the collected midpoints, with the code's 64-bit addition.\<close>

definition consensus :: "u64 list \<Rightarrow> (rt_query_error, u64) result" where
  "consensus midpoints =
     (if midpoints = [] then Err Rt_No_Valid_Responses else
      let sorted = sort midpoints; mid = length sorted div 2 in
      if length sorted mod 2 = 1 then index_at sorted mid
      else and_then (index_at sorted (mid - 1)) (\<lambda>a.
           and_then (index_at sorted mid) (\<lambda>b. Ok ((a + b) div 2))))"

definition query_roughtime ::
  "(roughtime_server \<times> ip_addr) list \<Rightarrow> (rt_query_error, u64) io" where
  "query_roughtime resolved_servers =
     bind (collect_all
       (\<lambda>(srv, ip). query_single_roughtime ip (rs_port srv) (rs_pubkey_base64 srv))
       resolved_servers)
     (\<lambda>results. pure (consensus (valid_midpoints results)))"

section \<open>The request\<close>

lemma length_resize [simp]: "length (resize n xs) = n"
  by (simp add: resize_def)

lemma rt_request_encodes:
  assumes "length nonce = 64"
  shows "rt_request nonce = rt_encode (rt_msg [(TAG_NONC, nonce), (TAG_PAD, replicate 944 0)])"
  using assms by (simp add: rt_request_def resize_def rt_encode_def rt_msg_def numeral_2_eq_2)

lemma rt_request_fields:
  "length nonce = 64 \<Longrightarrow> rt_fields_ok [(TAG_NONC, nonce), (TAG_PAD, replicate 944 0)]"
  by (simp add: rt_fields_ok_def)

section \<open>The exchange\<close>

text \<open>What the exchange returns is what some call to receive was answered with.\<close>

lemma rt_exchange_received:
  "rt_exchange addr req n E t = (Ok (Some data) :: ('e, bytes option) result, t') \<Longrightarrow>
     \<exists>u bs. udp_recv (net E) (Udp_Send addr req # u @ t) = Received bs \<and> data = take 2048 bs \<and>
       t' = Udp_Recv 2048 15000 # Udp_Send addr req # u @ t"
proof (induction n arbitrary: t)
  case (Suc n)
  have again: ?case
    if "rt_exchange addr req n E (p @ t) = (Ok (Some data) :: ('e, bytes option) result, t')" for p
    using Suc.IH [OF that] by (metis append.assoc)
  show ?case
    using Suc.prems again [of "[Sleep_Ms 300, Udp_Send addr req]"]
      again [of "[Sleep_Ms 300, Udp_Recv 2048 15000, Udp_Send addr req]"]
    by (auto split: if_splits recv_outcome.splits intro: exI [of _ "[]"])
qed simp

lemma rt_exchange_no_panic: "fst (rt_exchange addr req n E t) \<noteq> Panic"
  by (induction n arbitrary: t) (auto split: recv_outcome.splits)

text \<open>One attempt that receives a datagram, and one that is lost and leaves the trace \<open>t'\<close>.\<close>

definition delivers :: "env \<Rightarrow> socket_addr \<Rightarrow> bytes \<Rightarrow> trace \<Rightarrow> bytes \<Rightarrow> bool" where
  "delivers E addr req t data \<longleftrightarrow>
     udp_send_ok (net E) t \<and> udp_recv (net E) (Udp_Send addr req # t) = Received data"

definition loses :: "env \<Rightarrow> socket_addr \<Rightarrow> bytes \<Rightarrow> trace \<Rightarrow> trace \<Rightarrow> bool" where
  "loses E addr req t t' \<longleftrightarrow>
     (\<not> udp_send_ok (net E) t \<and> t' = Sleep_Ms 300 # Udp_Send addr req # t) \<or>
     (udp_send_ok (net E) t \<and> t' = Sleep_Ms 300 # Udp_Recv 2048 15000 # Udp_Send addr req # t \<and>
      (udp_recv (net E) (Udp_Send addr req # t) = Recv_Failed \<or>
       udp_recv (net E) (Udp_Send addr req # t) = Recv_Timeout))"

lemma rt_exchange_delivers:
  "delivers E addr req t data \<Longrightarrow>
     rt_exchange addr req (Suc n) E t =
       (Ok (Some (take 2048 data)), Udp_Recv 2048 15000 # Udp_Send addr req # t)"
  by (simp add: delivers_def)

lemma rt_exchange_loses:
  "loses E addr req t t' \<Longrightarrow> rt_exchange addr req (Suc n) E t = rt_exchange addr req n E t'"
  by (auto simp: loses_def)

lemma rt_exchange_second:
  assumes "delivers E addr req t data \<or> (\<exists>t'. loses E addr req t t' \<and> delivers E addr req t' data)"
  shows "\<exists>t''. rt_exchange addr req 2 E t = (Ok (Some (take 2048 data)), t'')"
  using assms rt_exchange_delivers rt_exchange_loses by (metis numeral_2_eq_2)

text \<open>The two calls before the exchange, and the nonce they draw.\<close>

abbreviation drawn :: "trace \<Rightarrow> trace" where
  "drawn t \<equiv> Rand_Fill 64 # Udp_Bind # t"

definition drawn_nonce :: "env \<Rightarrow> trace \<Rightarrow> bytes" where
  "drawn_nonce E t = map (rand_byte (net E) (Udp_Bind # t)) [0..<64]"

lemma length_drawn_nonce [simp]: "length (drawn_nonce E t) = 64"
  by (simp add: drawn_nonce_def)

lemma rand_fill_eq:
  "rand_fill e n E t =
     (if rand_ok (net E) t then Ok (map (rand_byte (net E) t) [0..<n]) else Err e, Rand_Fill n # t)"
  by (simp add: rand_fill_def)

lemma query_single_Ok_iff:
  "query_single_roughtime ip port key E t = (Ok m, t') \<longleftrightarrow>
     udp_bind_ok (net E) t \<and> rand_ok (net E) (Udp_Bind # t) \<and>
     (\<exists>data. rt_exchange (ip, port) (rt_request (drawn_nonce E t)) 2 E (drawn t) =
         (Ok (Some data) :: (rt_query_error, bytes option) result, t') \<and>
       verify_roughtime_response (lib E) data (drawn_nonce E t) key = Ok m)"
  by (auto simp: query_single_roughtime_def bind_Ok_iff rand_fill_eq drawn_nonce_def)

lemma query_single_evidence:
  assumes "query_single_roughtime ip port key E t = (Ok m, t')"
  obtains u bs dele srep index path where
    "udp_recv (net E) (Udp_Send (ip, port) (rt_request (drawn_nonce E t)) # u @ drawn t) = Received bs"
    "t' = Udp_Recv 2048 15000 # Udp_Send (ip, port) (rt_request (drawn_nonce E t)) # u @ drawn t"
    "rt_evidence (lib E) (take 2048 bs) (drawn_nonce E t) key m dele srep index path"
proof -
  obtain data where
    x: "rt_exchange (ip, port) (rt_request (drawn_nonce E t)) 2 E (drawn t) =
         (Ok (Some data) :: (rt_query_error, bytes option) result, t')"
    and v: "verify_roughtime_response (lib E) data (drawn_nonce E t) key = Ok m"
    using assms by (auto simp: query_single_Ok_iff)
  show thesis
    using rt_exchange_received [OF x] v rt_evidence_iff that by metis
qed

lemma query_single_no_panic [no_panic]: "fst (query_single_roughtime ip port key E t) \<noteq> Panic"
proof -
  obtain r t' where x: "rt_exchange (ip, port) (rt_request (drawn_nonce E t)) 2 E (drawn t) =
      (r :: (rt_query_error, bytes option) result, t')"
    by (metis surj_pair)
  moreover have "r \<noteq> Panic"
    using rt_exchange_no_panic x by (metis fst_conv)
  ultimately show ?thesis
    using verify_roughtime_no_panic
    by (cases r) (auto simp: query_single_roughtime_def bind_eq rand_fill_eq drawn_nonce_def require_def
        split: result.splits option.splits prod.splits)
qed

lemma honest_response_fits:
  assumes "honest_ok L key s"
  shows "length (honest_response L s i) \<le> 2048"
proof -
  have "length (concat (merkle_path L (depth s) (nonces s) i)) = 32 * depth s"
    using length_concat_widths [OF merkle_path_widths] by simp
  then show ?thesis
    using assms
    by (simp add: honest_response_def honest_srep_def honest_cert_def honest_dele_def honest_ok_def
        length_rt_encode_msg)
qed

section \<open>The median\<close>

lemma filter_none_take:
  "\<forall>i<k. \<not> P (xs ! i) \<Longrightarrow> k \<le> length xs \<Longrightarrow> length (filter P xs) \<le> length xs - k"
proof -
  assume none: "\<forall>i<k. \<not> P (xs ! i)" and k: "k \<le> length xs"
  have "filter P (take k xs) = []"
    using none k by (auto simp: filter_empty_conv in_set_conv_nth)
  then have "filter P xs = filter P (drop k xs)"
    by (metis append_Nil append_take_drop_id filter_append)
  then show ?thesis
    by (metis length_drop length_filter_le)
qed

lemma filter_none_drop:
  "\<forall>i<length xs. k \<le> i \<longrightarrow> \<not> P (xs ! i) \<Longrightarrow> length (filter P xs) \<le> k"
proof -
  assume none: "\<forall>i<length xs. k \<le> i \<longrightarrow> \<not> P (xs ! i)"
  have "filter P (drop k xs) = []"
    using none by (auto simp: filter_empty_conv in_set_conv_nth)
  then have "filter P xs = filter P (take k xs)"
    by (metis append_Nil2 append_take_drop_id filter_append)
  then show ?thesis
    by (metis length_filter_le length_take min.bounded_iff)
qed

text \<open>In a sorted list most of whose elements lie in an interval, the middle ones lie in it too.\<close>

lemma sorted_middle:
  fixes xs :: "'a::linorder list"
  assumes s: "sorted xs" and k: "k < length xs"
    and enough: "length xs - Suc k < length (filter (\<lambda>x. lo \<le> x \<and> x \<le> hi) xs)"
      "k < length (filter (\<lambda>x. lo \<le> x \<and> x \<le> hi) xs)"
  shows "lo \<le> xs ! k \<and> xs ! k \<le> hi"
proof (intro conjI; rule ccontr)
  assume "\<not> lo \<le> xs ! k"
  then have "\<forall>i<Suc k. \<not> (lo \<le> xs ! i \<and> xs ! i \<le> hi)"
    using s k by (metis less_Suc_eq_le order_trans sorted_nth_mono)
  from filter_none_take [OF this] k enough(1) show False by simp
next
  assume "\<not> xs ! k \<le> hi"
  then have "\<forall>i<length xs. k \<le> i \<longrightarrow> \<not> (lo \<le> xs ! i \<and> xs ! i \<le> hi)"
    using s by (metis order_trans sorted_nth_mono)
  from filter_none_drop [OF this] enough(2) show False by simp
qed

lemma filter_sort_length: "length (filter P (sort xs)) = length (filter P xs)"
  by (simp add: filter_sort)

lemma unat_average:
  assumes "a \<le> hi" and "b \<le> hi" and "hi < (2 ^ 63 :: u64)"
  shows "unat ((a + b) div 2) = (unat a + unat b) div 2"
proof -
  have "unat a < 2 ^ 63" "unat b < 2 ^ 63"
    using assms by (auto simp: word_le_nat_alt word_less_nat_alt)
  then have "unat (a + b) = unat a + unat b"
    by (subst unat_add_lem [symmetric]) simp
  then show ?thesis by (simp add: unat_div)
qed

lemma average_between:
  assumes "lo \<le> a" "a \<le> hi" and "lo \<le> b" "b \<le> hi" and "hi < (2 ^ 63 :: u64)"
  shows "lo \<le> (a + b) div 2 \<and> (a + b) div 2 \<le> hi"
  using assms(1-4) unat_average [OF assms(2,4,5)] by (simp add: word_le_nat_alt) linarith

lemma consensus_no_panic [no_panic]: "consensus ms \<noteq> Panic"
proof (cases "ms = []")
  case False
  then have "0 < length ms" by simp
  then have "\<not> length ms \<le> length ms div 2" "\<not> length ms \<le> length ms div 2 - Suc 0"
    by linarith+
  then show ?thesis
    by (auto simp: consensus_def Let_def and_then_eq_Panic)
qed (simp add: consensus_def)

lemma consensus_Err_iff: "consensus ms = Err e \<longleftrightarrow> ms = [] \<and> e = Rt_No_Valid_Responses"
  by (auto simp: consensus_def Let_def and_then_eq_Err index_at_def)

text \<open>The addition of the two middle midpoints wraps in 64 bits.\<close>

lemma consensus_wraps: "consensus [2 ^ 63, 2 ^ 63] = Ok 0"
  by (simp add: consensus_def)

lemma consensus_between:
  assumes most: "length ms < 2 * length (filter (\<lambda>x. lo \<le> x \<and> x \<le> hi) ms)"
    and hi: "hi < (2 ^ 63 :: u64)"
  shows "\<exists>m. consensus ms = Ok m \<and> lo \<le> m \<and> m \<le> hi"
proof -
  let ?s = "sort ms" and ?k = "length ms div 2"
  have count: "length (filter (\<lambda>x. lo \<le> x \<and> x \<le> hi) ?s) = length (filter (\<lambda>x. lo \<le> x \<and> x \<le> hi) ms)"
    by (rule filter_sort_length)
  have ne: "ms \<noteq> []" using most by auto
  have mid: "lo \<le> ?s ! k \<and> ?s ! k \<le> hi"
    if "k < length ms" and "length ms - Suc k < length (filter (\<lambda>x. lo \<le> x \<and> x \<le> hi) ms)"
      and "k < length (filter (\<lambda>x. lo \<le> x \<and> x \<le> hi) ms)" for k
    using that count by (intro sorted_middle) simp_all
  have k: "lo \<le> ?s ! ?k \<and> ?s ! ?k \<le> hi"
    using most ne length_greater_0_conv [of ms] by (intro mid) linarith+
  show ?thesis
  proof (cases "even (length ms)")
    case False
    then show ?thesis
      using k ne by (auto simp: consensus_def Let_def odd_iff_mod_2_eq_one)
  next
    case True
    then have even: "length ms = 2 * ?k" by simp
    then have pos: "0 < ?k" using ne by (metis length_greater_0_conv mult_pos_pos nat_0_less_mult_iff)
    then have k': "lo \<le> ?s ! (?k - 1) \<and> ?s ! (?k - 1) \<le> hi"
      using most even by (intro mid) linarith+
    have "?k < length ms" using even pos by linarith
    then have "?k - 1 < length ms" by linarith
    with \<open>?k < length ms\<close>
    show ?thesis
      using True ne average_between [of lo _ hi, OF k'[THEN conjunct1] k'[THEN conjunct2]
          k[THEN conjunct1] k[THEN conjunct2] hi]
      by (simp add: consensus_def Let_def)
  qed
qed

lemma collect_all_results:
  "collect_all f xs E t = (Ok rs :: ('f, ('e, 'b) result list) result, t') \<Longrightarrow>
     length rs = length xs \<and> (\<forall>i<length xs. \<exists>u u'. f (xs ! i) E u = (rs ! i, u'))"
proof (induction xs arbitrary: t rs t')
  case (Cons x xs)
  obtain r u where x: "f x E t = (r, u)" by (metis surj_pair)
  from Cons.prems x obtain rs' u' where rest: "collect_all f xs E u =
      (Ok rs' :: ('f, ('e, 'b) result list) result, u')" "rs = r # rs'"
    by (cases r) (auto simp: bind_Ok_iff attempt_def on_result_eq)
  from Cons.IH [OF this(1)] x rest(2) show ?case
    by (auto simp: nth_Cons split: nat.splits)
qed simp

lemma valid_midpoints_Ok: "m \<in> set (valid_midpoints rs) \<Longrightarrow> Ok m \<in> set rs"
  by (induction rs rule: valid_midpoints.induct) auto

lemma length_valid_midpoints: "length (valid_midpoints rs) \<le> length rs"
  by (induction rs rule: valid_midpoints.induct) auto

text \<open>The consensus rests on evidence under the keys of the queried servers.\<close>

definition consensus_evidence :: "env \<Rightarrow> (roughtime_server \<times> ip_addr) list \<Rightarrow> u64 \<Rightarrow> bool" where
  "consensus_evidence E servers m \<longleftrightarrow>
    (\<exists>ms. ms \<noteq> [] \<and> length ms \<le> length servers \<and> consensus ms = Ok m \<and>
    (\<forall>x\<in>set ms. \<exists>(srv, ip)\<in>set servers. \<exists>u v bs dele srep index path.
       udp_recv (net E) (Udp_Send (ip, rs_port srv) (rt_request (drawn_nonce E u)) # v @ drawn u) =
         Received bs \<and>
       rt_evidence (lib E) (take 2048 bs) (drawn_nonce E u) (rs_pubkey_base64 srv) x dele srep index path))"

lemma query_roughtime_evidence:
  assumes "query_roughtime servers E t = (Ok m, t')"
  shows "consensus_evidence E servers m"
proof -
  obtain rs u where rs: "collect_all (\<lambda>(srv, ip). query_single_roughtime ip (rs_port srv)
        (rs_pubkey_base64 srv)) servers E t = (Ok rs :: (rt_query_error, (rt_query_error, u64) result list) result, u)"
    and m: "consensus (valid_midpoints rs) = Ok m"
    using assms by (auto simp: query_roughtime_def bind_Ok_iff)
  note run = collect_all_results [OF rs]
  have each: "\<exists>(srv, ip)\<in>set servers. \<exists>u v bs dele srep index path.
       udp_recv (net E) (Udp_Send (ip, rs_port srv) (rt_request (drawn_nonce E u)) # v @ drawn u) =
         Received bs \<and>
       rt_evidence (lib E) (take 2048 bs) (drawn_nonce E u) (rs_pubkey_base64 srv) x dele srep index path"
    if x: "x \<in> set (valid_midpoints rs)" for x
  proof -
    from valid_midpoints_Ok [OF x] obtain i where i: "i < length servers" "rs ! i = Ok x"
      using run by (metis in_set_conv_nth)
    obtain srv ip where s: "servers ! i = (srv, ip)" by (metis surj_pair)
    with i run obtain u u' where q:
      "query_single_roughtime ip (rs_port srv) (rs_pubkey_base64 srv) E u = (Ok x, u')"
      by fastforce
    have "(srv, ip) \<in> set servers" using i(1) s nth_mem by metis
    then show ?thesis
    proof (rule rev_bexI)
      obtain v bs dele srep index path where
        "udp_recv (net E) (Udp_Send (ip, rs_port srv) (rt_request (drawn_nonce E u)) # v @ drawn u) = Received bs"
        "rt_evidence (lib E) (take 2048 bs) (drawn_nonce E u) (rs_pubkey_base64 srv) x dele srep index path"
        using q by (rule query_single_evidence)
      then show "case (srv, ip) of (srv, ip) \<Rightarrow> \<exists>u v bs dele srep index path.
          udp_recv (net E) (Udp_Send (ip, rs_port srv) (rt_request (drawn_nonce E u)) # v @ drawn u) =
            Received bs \<and>
          rt_evidence (lib E) (take 2048 bs) (drawn_nonce E u) (rs_pubkey_base64 srv) x dele srep index path"
        unfolding prod.case by blast
    qed
  qed
  have len: "length (valid_midpoints rs) \<le> length servers"
    using run length_valid_midpoints by metis
  have ne: "valid_midpoints rs \<noteq> []"
    using m by (auto simp: consensus_def)
  show ?thesis
    unfolding consensus_evidence_def
    by (rule exI [of _ "valid_midpoints rs"]) (intro conjI ballI ne len m each)
qed

section \<open>A concrete exchange\<close>

text \<open>An outside in which the first request is lost and the second is answered by \<open>toy_server\<close>.\<close>

definition toy_world :: env where
  "toy_world = toy_env (toy_net
     \<lparr>udp_recv := (\<lambda>t. if length t < 4 then Recv_Timeout
        else Received (honest_response toy_lib toy_server 1))\<rparr>)"

lemma toy_world_simps:
  "lib toy_world = toy_lib" "udp_bind_ok (net toy_world) t" "rand_ok (net toy_world) t"
  "drawn_nonce toy_world t = replicate 64 2" "midp_time toy_server = 1500" "depth toy_server = 1"
  "nonces toy_server ! Suc 0 = replicate 64 2"
  by (simp_all add: toy_world_def drawn_nonce_def toy_net_def toy_server_def map_replicate_const)

lemma toy_answer:
  "\<exists>t1. loses toy_world addr req (drawn []) t1 \<and>
     delivers toy_world addr req t1 (honest_response toy_lib toy_server 1)"
  by (rule exI [of _ "Sleep_Ms 300 # Udp_Recv 2048 15000 # Udp_Send addr req # drawn []"])
     (simp add: loses_def delivers_def toy_world_def toy_net_def)

lemma toy_query:
  "\<exists>t'. query_single_roughtime ip port [] toy_world [] = (Ok 1500, t')"
proof -
  obtain t'' where "rt_exchange (ip, port) (rt_request (replicate 64 2)) 2 toy_world (drawn []) =
      (Ok (Some (honest_response toy_lib toy_server 1)) :: (rt_query_error, bytes option) result, t'')"
    using rt_exchange_second [OF disjI2, OF toy_answer] honest_response_fits [OF toy_server_ok]
    by (metis take_all_iff)
  moreover have "verify_roughtime_response toy_lib (honest_response toy_lib toy_server 1)
      (replicate 64 2) [] = Ok 1500"
    using accepted_if_rt_evidence [OF toy_evidence] .
  ultimately have "query_single_roughtime ip port [] toy_world [] = (Ok 1500, t'')"
    by (simp add: query_single_Ok_iff toy_world_simps)
  then show ?thesis by blast
qed

section \<open>Properties\<close>

text \<open>
  C9. The request is 1024 bytes long and is the well-formed message with the 64-byte nonce under
  \<open>NONC\<close> and zero bytes under \<open>PAD\<close>.
\<close>

theorem rt_request_wellformed:
  assumes "length nonce = 64"
  shows "length (rt_request nonce) = 1024 \<and>
    rt_parse (rt_request nonce) =
      Ok \<lparr>rt_tags = [TAG_NONC, TAG_PAD], rt_values = [nonce, replicate 944 0]\<rparr>"
proof
  show "length (rt_request nonce) = 1024" by (simp add: rt_request_def)
  show "rt_parse (rt_request nonce) =
      Ok \<lparr>rt_tags = [TAG_NONC, TAG_PAD], rt_values = [nonce, replicate 944 0]\<rparr>"
    using rt_parse_msg [OF rt_request_fields [OF assms]]
    by (simp only: rt_request_encodes [OF assms] rt_msg_def list.map fst_conv snd_conv)
qed

theorem rt_request_wellformed_witness:
  "rt_parse (rt_request (replicate 64 7)) =
     Ok \<lparr>rt_tags = [TAG_NONC, TAG_PAD], rt_values = [replicate 64 7, replicate 944 0]\<rparr>"
  using rt_request_wellformed [of "replicate 64 7"] by simp

text \<open>
  C10. A time returned for one server is authentic: it comes from a datagram received after a request
  with a nonce drawn for this query was sent to that server, and the datagram carries the evidence
  for the time under the server's key and this nonce.
\<close>

theorem roughtime_query_authentic:
  assumes "query_single_roughtime ip port key E t = (Ok m, t')"
  shows "\<exists>u bs dele srep index path.
    udp_recv (net E) (Udp_Send (ip, port) (rt_request (drawn_nonce E t)) # u @ drawn t) = Received bs \<and>
    t' = Udp_Recv 2048 15000 # Udp_Send (ip, port) (rt_request (drawn_nonce E t)) # u @ drawn t \<and>
    rt_evidence (lib E) (take 2048 bs) (drawn_nonce E t) key m dele srep index path"
  using assms by (rule query_single_evidence) blast

theorem roughtime_query_authentic_witness:
  "\<exists>E t'. query_single_roughtime (V4 162 159 200 1) 2003 [] E [] = (Ok 1500, t') \<and>
     (\<exists>u bs dele srep index path.
       udp_recv (net E) (Udp_Send (V4 162 159 200 1, 2003) (rt_request (drawn_nonce E [])) # u @ drawn [])
         = Received bs \<and>
       t' = Udp_Recv 2048 15000 #
         Udp_Send (V4 162 159 200 1, 2003) (rt_request (drawn_nonce E [])) # u @ drawn [] \<and>
       rt_evidence (lib E) (take 2048 bs) (drawn_nonce E []) [] 1500 dele srep index path)"
proof -
  obtain t' where "query_single_roughtime (V4 162 159 200 1) 2003 [] toy_world [] = (Ok 1500, t')"
    using toy_query by blast
  from this roughtime_query_authentic [OF this] show ?thesis by blast
qed

text \<open>
  C11. A query that reaches an honest server succeeds: when the first or, after a loss, the second
  attempt is answered with the honest answer for the nonce that was drawn, the server's midpoint is
  returned.
\<close>

theorem roughtime_query_honest:
  assumes "udp_bind_ok (net E) t" and "rand_ok (net E) (Udp_Bind # t)"
    and "honest_ok (lib E) key s" and "i < 2 ^ depth s" and "nonces s ! i = drawn_nonce E t"
    and "delivers E (ip, port) (rt_request (drawn_nonce E t)) (drawn t) (honest_response (lib E) s i) \<or>
      (\<exists>t1. loses E (ip, port) (rt_request (drawn_nonce E t)) (drawn t) t1 \<and>
        delivers E (ip, port) (rt_request (drawn_nonce E t)) t1 (honest_response (lib E) s i))"
  shows "fst (query_single_roughtime ip port key E t) = Ok (midp_time s)"
proof -
  obtain t'' where "rt_exchange (ip, port) (rt_request (drawn_nonce E t)) 2 E (drawn t) =
      (Ok (Some (honest_response (lib E) s i)) :: (rt_query_error, bytes option) result, t'')"
    using rt_exchange_second [OF assms(6)] honest_response_fits [OF assms(3)] by (metis take_all_iff)
  moreover have "verify_roughtime_response (lib E) (honest_response (lib E) s i) (drawn_nonce E t) key =
      Ok (midp_time s)"
    using accepted_if_rt_evidence [OF honest_evidence [OF assms(3,4)]] assms(5) by simp
  ultimately have "query_single_roughtime ip port key E t = (Ok (midp_time s), t'')"
    using assms(1,2) by (auto simp: query_single_Ok_iff)
  then show ?thesis by simp
qed

theorem roughtime_query_honest_witness:
  "fst (query_single_roughtime (V4 162 159 200 1) 2003 [] toy_world []) = Ok 1500"
proof -
  have "honest_ok (lib toy_world) [] toy_server"
    using toy_server_ok by (simp add: toy_world_simps)
  from roughtime_query_honest [OF _ _ this, of "[]" 1 "V4 162 159 200 1" 2003] show ?thesis
    using toy_answer by (simp add: toy_world_simps)
qed

text \<open>
  C12. The consensus of midpoints below 2^63 is sound against a minority: when more than half of the
  midpoints lie in an interval, so does the result, however far off the others are.
\<close>

theorem consensus_majority:
  assumes "length ms < 2 * length (filter (\<lambda>x. lo \<le> x \<and> x \<le> hi) ms)" and "hi < (2 ^ 63 :: u64)"
  shows "\<exists>m. consensus ms = Ok m \<and> lo \<le> m \<and> m \<le> hi"
  using assms by (rule consensus_between)

theorem consensus_majority_witness:
  "\<exists>m. consensus [0xFFFFFFFFFFFFFFFF, 100, 105] = Ok m \<and> 50 \<le> m \<and> m \<le> 200"
  by (rule consensus_majority) simp_all

text \<open>
  C13. The time the loader adopts from Roughtime is the consensus of a non-empty list of midpoints,
  each of them the result of a query to one of the servers: a datagram received for that query
  carries the evidence under the key of that server for the nonce drawn for the query.
\<close>

theorem roughtime_consensus_authentic:
  assumes "query_roughtime servers E t = (Ok m, t')"
  shows "\<exists>ms. ms \<noteq> [] \<and> length ms \<le> length servers \<and> consensus ms = Ok m \<and>
    (\<forall>x\<in>set ms. \<exists>(srv, ip)\<in>set servers. \<exists>u v bs dele srep index path.
       udp_recv (net E) (Udp_Send (ip, rs_port srv) (rt_request (drawn_nonce E u)) # v @ drawn u) =
         Received bs \<and>
       rt_evidence (lib E) (take 2048 bs) (drawn_nonce E u) (rs_pubkey_base64 srv) x dele srep index path)"
  using query_roughtime_evidence [OF assms] unfolding consensus_evidence_def .

theorem roughtime_consensus_authentic_witness:
  "\<exists>E servers t'. query_roughtime servers E [] = (Ok 1500, t') \<and>
     (\<exists>ms. ms \<noteq> [] \<and> length ms \<le> length servers \<and> consensus ms = Ok 1500)"
proof -
  let ?s = "server ''roughtime.se'' ''roughtime.se'' 2002 []"
  obtain t' where "query_single_roughtime (V4 1 2 3 4) 2002 [] toy_world [] = (Ok 1500, t')"
    using toy_query by blast
  then have q: "query_roughtime [(?s, V4 1 2 3 4)] toy_world [] = (Ok 1500, t')"
    by (simp add: query_roughtime_def server_def attempt_def on_result_eq consensus_def)
  from roughtime_consensus_authentic [OF q]
  have "\<exists>ms. ms \<noteq> [] \<and> length ms \<le> length [(?s, V4 1 2 3 4)] \<and> consensus ms = Ok 1500" by blast
  with q show ?thesis by blast
qed

end
