(* ===== verification/Http_Date.thy ===== *)
theory Http_Date
  imports Rust_Str World
begin

text \<open>
  The fallback time source and the clock floor of \<open>src/time.rs\<close>: \<open>parse_http_date\<close>, \<open>is_leap_year\<close>
  and \<open>enforce_time_floor\<close>.

  The calendar is specified on its own, by the day that follows a day; the lemmas show that the
  parser maps the text of the n-th day after 1 January 1970 to the number of its seconds.
\<close>

section \<open>The parser\<close>

definition LAST_KNOWN_GOOD_TIME_SECS :: u64 where
  "LAST_KNOWN_GOOD_TIME_SECS = 1780272000"

definition LAST_KNOWN_GOOD_TIME_MICROS :: u64 where
  "LAST_KNOWN_GOOD_TIME_MICROS = 1780272000001000"

definition is_leap_year :: "u64 \<Rightarrow> bool" where
  "is_leap_year year \<longleftrightarrow> (year mod 4 = 0 \<and> year mod 100 \<noteq> 0) \<or> year mod 400 = 0"

definition month_names :: "bytes list" where
  "month_names =
     [lit ''Jan'', lit ''Feb'', lit ''Mar'', lit ''Apr'', lit ''May'', lit ''Jun'',
      lit ''Jul'', lit ''Aug'', lit ''Sep'', lit ''Oct'', lit ''Nov'', lit ''Dec'']"

text \<open>The match on the month name: its position, from 1.\<close>

fun position :: "nat \<Rightarrow> bytes list \<Rightarrow> bytes \<Rightarrow> nat option" where
  "position i [] w = None"
| "position i (n # ns) w = (if w = n then Some i else position (Suc i) ns w)"

definition parse_month :: "bytes \<Rightarrow> nat option" where
  "parse_month w = position 1 month_names w"

text \<open>\<open>for y in 1970..year\<close>.\<close>

definition years_days :: "u64 \<Rightarrow> u64" where
  "years_days year =
     foldl (\<lambda>days y. if is_leap_year (of_nat y) then days + 366 else days + 365) 0 [1970..<unat year]"

definition month_days :: "u64 \<Rightarrow> u64 list" where
  "month_days year =
     (if is_leap_year year then [0, 31, 29, 31, 30, 31, 30, 31, 31, 30, 31, 30, 31]
      else [0, 31, 28, 31, 30, 31, 30, 31, 31, 30, 31, 30, 31])"

text \<open>\<open>for m in 1..month\<close>: the month is 1 to 12, so the index is in range.\<close>

definition months_days :: "u64 \<Rightarrow> nat \<Rightarrow> u64 \<Rightarrow> u64" where
  "months_days year month days = foldl (\<lambda>days m. days + month_days year ! m) days [1..<month]"

definition timestamp :: "u64 \<Rightarrow> nat \<Rightarrow> u64 \<Rightarrow> u64 \<Rightarrow> u64 \<Rightarrow> u64 \<Rightarrow> u64" where
  "timestamp year month day hour minute second =
     (months_days year month (years_days year) + (day - 1)) * 86400
     + hour * 3600 + minute * 60 + second"

text \<open>\<open>None\<close> for every missing or malformed part, as \<open>?\<close> returns it.\<close>

definition parse_http_date :: "bytes \<Rightarrow> u64 option" where
  "parse_http_date date_str =
     (case split_whitespace date_str of
        _ # day_str # month_str # year_str # time_str # _ \<Rightarrow>
          Option.bind (parse_u64 day_str) (\<lambda>day.
          Option.bind (parse_u64 year_str) (\<lambda>year.
          Option.bind (parse_month month_str) (\<lambda>month.
          (case split_byte 0x3A time_str of
             hour_str # minute_str # second_str # _ \<Rightarrow>
               Option.bind (parse_u64 hour_str) (\<lambda>hour.
               Option.bind (parse_u64 minute_str) (\<lambda>minute.
               Option.bind (parse_u64 second_str) (\<lambda>second.
               Some (timestamp year month day hour minute second))))
           | _ \<Rightarrow> None))))
      | _ \<Rightarrow> None)"

section \<open>The clock floor\<close>

definition enforce_time_floor :: "('e, unit) io" where
  "enforce_time_floor =
     bind (call Read_Clock (\<lambda>E. clock_now (net E))) (\<lambda>secs.
     if secs < LAST_KNOWN_GOOD_TIME_SECS
     then bind (call (Clock_Set LAST_KNOWN_GOOD_TIME_SECS 1000000) (\<lambda>E. clock_set_ok (os E)))
       (\<lambda>_. return ())
     else return ())"

section \<open>The calendar\<close>

definition leap :: "nat \<Rightarrow> bool" where
  "leap y \<longleftrightarrow> (4 dvd y \<and> \<not> 100 dvd y) \<or> 400 dvd y"

definition month_length :: "nat \<Rightarrow> nat \<Rightarrow> nat" where
  "month_length y m =
     (if m = 2 then (if leap y then 29 else 28) else if m \<in> {4, 6, 9, 11} then 30 else 31)"

fun next_day :: "nat \<times> nat \<times> nat \<Rightarrow> nat \<times> nat \<times> nat" where
  "next_day (y, m, d) =
     (if d < month_length y m then (y, m, d + 1) else if m < 12 then (y, m + 1, 1) else (y + 1, 1, 1))"

text \<open>The \<open>n\<close>-th day after 1 January 1970.\<close>

definition nth_day :: "nat \<Rightarrow> nat \<times> nat \<times> nat" where
  "nth_day n = (next_day ^^ n) (1970, 1, 1)"

definition two_digits :: "nat \<Rightarrow> bytes" where
  "two_digits n = (if n < 10 then 0x30 # fmt_nat n else fmt_nat n)"

text \<open>An \<open>IMF-fixdate\<close>, such as \<open>Mon, 01 Jun 2026 12:41:36 GMT\<close>.\<close>

definition http_date_text :: "bytes \<Rightarrow> nat \<times> nat \<times> nat \<Rightarrow> nat \<Rightarrow> nat \<Rightarrow> nat \<Rightarrow> bytes" where
  "http_date_text day_name date hour minute second =
     (case date of (y, m, d) \<Rightarrow>
        day_name @ 0x20 # two_digits d @ 0x20 # month_names ! (m - 1) @ 0x20 # fmt_nat y @ 0x20 #
        (two_digits hour @ 0x3A # two_digits minute @ 0x3A # two_digits second) @ 0x20 # lit ''GMT'')"

lemma next_days: "d + k \<le> month_length y m \<Longrightarrow> (next_day ^^ k) (y, m, d) = (y, m, d + k)"
  by (induction k) auto

lemma nth_day_add: "nth_day (n + k) = (next_day ^^ k) (nth_day n)"
  by (metis add.commute comp_apply funpow_add nth_day_def)

section \<open>The day number\<close>

definition year_length :: "nat \<Rightarrow> nat" where
  "year_length y = (if leap y then 366 else 365)"

definition day_number :: "nat \<times> nat \<times> nat \<Rightarrow> nat" where
  "day_number date =
     (case date of (y, m, d) \<Rightarrow>
        sum_list (map year_length [1970..<y]) + sum_list (map (month_length y) [1..<m]) + (d - 1))"

definition valid_date :: "nat \<times> nat \<times> nat \<Rightarrow> bool" where
  "valid_date date =
     (case date of (y, m, d) \<Rightarrow> 1970 \<le> y \<and> 1 \<le> m \<and> m \<le> 12 \<and> 1 \<le> d \<and> d \<le> month_length y m)"

lemma upt_12: "[1..<12::nat] = [1, 2, 3, 4, 5, 6, 7, 8, 9, 10, 11]"
  by code_simp

lemma next_day_valid: "valid_date x \<Longrightarrow> valid_date (next_day x)"
  by (cases x) (auto simp: valid_date_def month_length_def split: if_splits)

lemma year_months: "sum_list (map (month_length y) [1..<12]) + 31 = year_length y"
  unfolding upt_12 by (simp add: month_length_def year_length_def)

lemma next_day_number:
  assumes "valid_date x"
  shows "day_number (next_day x) = Suc (day_number x)"
proof -
  obtain y m d where x: "x = (y, m, d)" by (cases x)
  have v: "1970 \<le> y" "1 \<le> m" "m \<le> 12" "1 \<le> d" "d \<le> month_length y m"
    using assms by (simp_all add: x valid_date_def)
  show ?thesis
  proof (cases "m = 12 \<and> d = month_length y m")
    case True
    then show ?thesis
      using v year_months [of y] by (simp add: x day_number_def month_length_def)
  next
    case False
    then show ?thesis
      using v by (auto simp: x day_number_def)
  qed
qed

lemma nth_day_number: "valid_date (nth_day n) \<and> day_number (nth_day n) = n"
proof (induction n)
  case 0
  show ?case by (simp add: nth_day_def valid_date_def day_number_def month_length_def)
next
  case (Suc n)
  then show ?case
    by (simp add: nth_day_def next_day_valid next_day_number del: next_day.simps)
qed

lemma valid_bounds: "valid_date (y, m, d) \<Longrightarrow> 1 \<le> m \<and> m \<le> 12 \<and> d \<le> 31"
  by (auto simp: valid_date_def month_length_def split: if_splits)

lemma year_below: "valid_date (y, m, d) \<Longrightarrow> y \<le> 1970 + day_number (y, m, d)"
proof -
  have "length ys \<le> sum_list (map year_length ys)" for ys
    by (induction ys) (simp_all add: year_length_def)
  from this [of "[1970..<y]"] show ?thesis by (simp add: day_number_def)
qed

section \<open>The parser computes the day number\<close>

lemma leap_of_nat: "y < 2 ^ 64 \<Longrightarrow> is_leap_year (of_nat y) = leap y"
proof -
  assume "y < 2 ^ 64"
  then have "unat (of_nat y :: u64) = y" by (simp add: unat_of_nat)
  then have "((of_nat y :: u64) mod of_nat k = 0) = (k dvd y)" if "k < 2 ^ 64" for k
    using that by (simp add: word_unat_eq_iff unat_mod unat_of_nat dvd_eq_mod_eq_0)
  from this [of 4] this [of 100] this [of 400] show ?thesis
    by (simp add: is_leap_year_def leap_def)
qed

lemma years_days_eq:
  "y < 2 ^ 64 \<Longrightarrow> years_days (of_nat y) = of_nat (sum_list (map year_length [1970..<y]))"
proof -
  assume y: "y < 2 ^ 64"
  have "foldl (\<lambda>days y. if is_leap_year (of_nat y) then days + 366 else days + 365) a ys =
      a + of_nat (sum_list (map year_length ys))" if "\<forall>y\<in>set ys. y < 2 ^ 64" for a :: u64 and ys
    using that by (induction ys arbitrary: a) (simp_all add: leap_of_nat year_length_def)
  from this [of "[1970..<y]" 0] y show ?thesis
    by (simp add: years_days_def unat_of_nat)
qed

lemma month_12:
  fixes m :: nat
  assumes "1 \<le> m" and "m \<le> 12"
  obtains "m = 1" | "m = 2" | "m = 3" | "m = 4" | "m = 5" | "m = 6" | "m = 7" | "m = 8" | "m = 9"
    | "m = 10" | "m = 11" | "m = 12"
proof -
  have "m = 1 \<or> m = 2 \<or> m = 3 \<or> m = 4 \<or> m = 5 \<or> m = 6 \<or> m = 7 \<or> m = 8 \<or> m = 9 \<or>
      m = 10 \<or> m = 11 \<or> m = 12" using assms by presburger
  then show thesis using that by blast
qed

lemma month_days_eq:
  "y < 2 ^ 64 \<Longrightarrow> 1 \<le> m \<Longrightarrow> m \<le> 12 \<Longrightarrow> month_days (of_nat y) ! m = of_nat (month_length y m)"
proof -
  assume y: "y < 2 ^ 64" and m: "1 \<le> m" "m \<le> 12"
  show ?thesis
    by (cases rule: month_12 [OF m]) (simp_all add: month_days_def month_length_def leap_of_nat [OF y])
qed

lemma months_days_eq:
  "y < 2 ^ 64 \<Longrightarrow> m \<le> 12 \<Longrightarrow>
     months_days (of_nat y) m a = a + of_nat (sum_list (map (month_length y) [1..<m]))"
proof -
  assume y: "y < 2 ^ 64" and m: "m \<le> 12"
  have "foldl (\<lambda>days m. days + month_days (of_nat y) ! m) a ms =
      a + of_nat (sum_list (map (month_length y) ms))" if "\<forall>m\<in>set ms. 1 \<le> m \<and> m \<le> 12" for a ms
    using that y by (induction ms arbitrary: a) (simp_all add: month_days_eq)
  from this [of "[1..<m]" a] m show ?thesis by (simp add: months_days_def)
qed

lemma timestamp_eq:
  assumes "valid_date (y, m, d)" and "y < 2 ^ 64"
  shows "timestamp (of_nat y) m (of_nat d) (of_nat h) (of_nat mi) (of_nat s) =
    of_nat (day_number (y, m, d) * 86400 + h * 3600 + mi * 60 + s)"
proof -
  have "(of_nat d :: u64) - 1 = of_nat (d - 1)"
    using assms(1) by (simp add: valid_date_def of_nat_diff)
  then show ?thesis
    using assms by (simp add: timestamp_def months_days_eq years_days_eq day_number_def valid_date_def)
qed

section \<open>The parser on a date text\<close>

lemma two_digits_props:
  "two_digits n \<noteq> []" "list_all is_digit (two_digits n)" "digits_val (two_digits n) = n"
  using fmt_nat_digits [of n] digits_val_fmt_nat [of n]
  by (simp_all add: two_digits_def is_digit_def digits_val_def digit_val_def)

lemma parse_two_digits: "n < 2 ^ 64 \<Longrightarrow> parse_u64 (two_digits n) = Some (of_nat n)"
  by (simp add: parse_u64_digits two_digits_props)

lemma parse_fmt_nat: "n < 2 ^ 64 \<Longrightarrow> parse_u64 (fmt_nat n) = Some (of_nat n)"
  by (simp add: parse_u64_digits fmt_nat_digits digits_val_fmt_nat)

lemma digits_plain: "list_all is_digit w \<Longrightarrow> \<forall>x\<in>set w. plain x"
  by (auto simp: list_all_iff plain_digit)

lemma digits_no_colon: "list_all is_digit w \<Longrightarrow> 0x3A \<notin> set w"
  by (auto simp: list_all_iff is_digit_def)

lemma month_name_parse:
  assumes "1 \<le> m" and "m \<le> 12"
  shows "parse_month (month_names ! (m - 1)) = Some m" "month_names ! (m - 1) \<noteq> []"
    "\<forall>x\<in>set (month_names ! (m - 1)). plain x"
  by (cases rule: month_12 [OF assms]; simp add: month_names_def parse_month_def plain_def)+

lemma parse_http_date_text:
  assumes m: "1 \<le> m" "m \<le> 12"
    and bounds: "d < 2 ^ 64" "y < 2 ^ 64" "h < 2 ^ 64" "mi < 2 ^ 64" "s < 2 ^ 64"
    and name: "day_name \<noteq> []" "\<forall>x\<in>set day_name. plain x"
  shows "parse_http_date (http_date_text day_name (y, m, d) h mi s) =
    Some (timestamp (of_nat y) m (of_nat d) (of_nat h) (of_nat mi) (of_nat s))"
proof -
  let ?t = "two_digits h @ 0x3A # two_digits mi @ 0x3A # two_digits s"
  have t: "\<forall>x\<in>set ?t. plain x"
    using digits_plain [OF two_digits_props(2)] by (auto simp: plain_def)
  have ne: "?t \<noteq> []" by simp
  have words: "split_whitespace (http_date_text day_name (y, m, d) h mi s) =
      day_name # two_digits d # month_names ! (m - 1) # fmt_nat y # ?t # split_whitespace (lit ''GMT'')"
    by (simp only: http_date_text_def prod.case split_whitespace_word [OF name]
        split_whitespace_word [OF two_digits_props(1) digits_plain [OF two_digits_props(2)]]
        split_whitespace_word [OF month_name_parse(2,3) [OF m]]
        split_whitespace_word [OF fmt_nat_not_Nil digits_plain [OF fmt_nat_digits]]
        split_whitespace_word [OF ne t])
  have "split_byte 0x3A ?t = [two_digits h, two_digits mi, two_digits s]"
    by (simp add: split_byte_append split_byte_no_sep digits_no_colon [OF two_digits_props(2)])
  then show ?thesis
    using bounds
    by (simp add: parse_http_date_def words parse_two_digits parse_fmt_nat month_name_parse(1) [OF m, simplified])
qed

text \<open>The date in the comment on \<open>LAST_KNOWN_GOOD_TIME_SECS\<close>.\<close>

lemma floor_date:
  "parse_http_date (lit ''Mon, 01 Jun 2026 00:00:00 GMT'') = Some LAST_KNOWN_GOOD_TIME_SECS"
proof -
  have shape: "http_date_text (lit ''Mon,'') (2026, 6, 1) 0 0 0 = lit ''Mon, 01 Jun 2026 00:00:00 GMT''"
    by (simp add: http_date_text_def two_digits_def fmt_nat.simps month_names_def)
  have v: "valid_date (2026, 6, 1)"
    by (simp add: valid_date_def month_length_def)
  have "parse_http_date (http_date_text (lit ''Mon,'') (2026, 6, 1) 0 0 0) =
      Some (of_nat (day_number (2026, 6, 1) * 86400))"
    using timestamp_eq [OF v, of 0 0 0] parse_http_date_text [of 6 1 2026 0 0 0 "lit ''Mon,''"]
    by (simp add: plain_def)
  moreover have "[Suc 0..<6] = [1, 2, 3, 4, 5]" by code_simp
  then have "day_number (2026, 6, 1) = 20605"
    by (simp add: day_number_def year_length_def month_length_def leap_def)
  ultimately show ?thesis
    unfolding shape by (simp add: LAST_KNOWN_GOOD_TIME_SECS_def)
qed

text \<open>
  Fields out of range are not refused: a day 0 wraps below the start of the year, and a month may
  have 99 days.
\<close>

lemma http_date_unchecked:
  "parse_http_date (lit ''Thu, 00 Jan 1970 00:00:00 GMT'') = Some (- 86400)"
  "parse_http_date (lit ''Thu, 99 Jan 1970 99:99:99 GMT'') = Some (98 * 86400 + 99 * 3600 + 99 * 60 + 99)"
proof -
  have "http_date_text (lit ''Thu,'') (1970, 1, 0) 0 0 0 = lit ''Thu, 00 Jan 1970 00:00:00 GMT''"
    and "http_date_text (lit ''Thu,'') (1970, 1, 99) 99 99 99 = lit ''Thu, 99 Jan 1970 99:99:99 GMT''"
    by (simp_all add: http_date_text_def two_digits_def fmt_nat.simps month_names_def)
  moreover have "timestamp 1970 1 0 0 0 0 = - 86400"
    and "timestamp 1970 1 99 99 99 99 = 98 * 86400 + 99 * 3600 + 99 * 60 + 99"
    by (simp_all add: timestamp_def years_days_def months_days_def)
  ultimately show "parse_http_date (lit ''Thu, 00 Jan 1970 00:00:00 GMT'') = Some (- 86400)"
    and "parse_http_date (lit ''Thu, 99 Jan 1970 99:99:99 GMT'') = Some (98 * 86400 + 99 * 3600 + 99 * 60 + 99)"
    using parse_http_date_text [of 1 0 1970 0 0 0 "lit ''Thu,''"]
      parse_http_date_text [of 1 99 1970 99 99 99 "lit ''Thu,''"]
    by (simp_all add: plain_def)
qed

section \<open>The floor\<close>

lemma enforce_time_floor_eq:
  "enforce_time_floor E t =
     (Ok (), if clock_now (net E) t < LAST_KNOWN_GOOD_TIME_SECS
             then Clock_Set LAST_KNOWN_GOOD_TIME_SECS 1000000 # Read_Clock # t else Read_Clock # t)"
  by (simp add: enforce_time_floor_def)

lemma floor_micros: "LAST_KNOWN_GOOD_TIME_MICROS = LAST_KNOWN_GOOD_TIME_SECS * 1000000 + 1000000 div 1000"
  by (simp add: LAST_KNOWN_GOOD_TIME_SECS_def LAST_KNOWN_GOOD_TIME_MICROS_def)

section \<open>Properties\<close>

text \<open>
  C14. The parser is right about the calendar: the text of the n-th day after 1 January 1970 at
  h:m:s is read as the number of seconds since then, for every year, month and time of day, leap
  years and month lengths included.
\<close>

theorem http_date_counts_seconds:
  assumes "n < 2 ^ 47" and "h < 24" and "mi < 60" and "s < 61"
    and "day_name \<noteq> []" and "\<forall>x\<in>set day_name. plain x"
  shows "\<exists>v. parse_http_date (http_date_text day_name (nth_day n) h mi s) = Some v \<and>
    unat v = n * 86400 + h * 3600 + mi * 60 + s"
proof -
  obtain y m d where x: "nth_day n = (y, m, d)" by (cases "nth_day n")
  have valid: "valid_date (y, m, d)" and num: "day_number (y, m, d) = n"
    using nth_day_number [of n] by (simp_all add: x)
  have "y < 2 ^ 64"
    using year_below [OF valid] num assms(1) by simp
  then have "parse_http_date (http_date_text day_name (nth_day n) h mi s) =
      Some (of_nat (n * 86400 + h * 3600 + mi * 60 + s))"
    unfolding x using assms num valid_bounds [OF valid]
    by (subst parse_http_date_text) (simp_all add: timestamp_eq [OF valid] del: of_nat_add of_nat_mult)
  then show ?thesis
    using assms by (simp add: unat_of_nat del: of_nat_add of_nat_mult)
qed

theorem http_date_counts_seconds_witness:
  "\<exists>v. parse_http_date (lit ''Sun, 01 Mar 1970 23:59:60 GMT'') = Some v \<and>
     unat v = 59 * 86400 + 23 * 3600 + 59 * 60 + 60"
proof -
  have "nth_day (30 + 1 + 27 + 1) = (1970, 3, 1)"
    by (simp only: nth_day_add)
       (simp add: nth_day_def next_days month_length_def leap_def)
  then have day: "nth_day 59 = (1970, 3, 1)" by simp
  have shape: "http_date_text (lit ''Sun,'') (1970, 3, 1) 23 59 60 = lit ''Sun, 01 Mar 1970 23:59:60 GMT''"
    by (simp add: http_date_text_def two_digits_def fmt_nat.simps month_names_def)
  have "\<forall>x\<in>set (lit ''Sun,''). plain x" by (simp add: plain_def)
  with http_date_counts_seconds [of 59 23 59 60 "lit ''Sun,''"] show ?thesis
    unfolding day shape by simp
qed

end
