(* ===== verification/Dns_Wire.thy ===== *)
theory Dns_Wire
  imports Rust_Str World
begin

text \<open>
  The DNS messages of \<open>src/dns.rs\<close>: \<open>build_a_record_query\<close>, \<open>build_txt_record_query\<close>,
  \<open>parse_dns_response\<close> and \<open>parse_txt_response\<close>.

  The wire format is specified by encoders for names, resource records and whole messages. The
  lemmas show that the parsers never index out of range, and that on the encoding of a message
  whose owner names are a compression pointer or a full name they return its first A record and its
  TXT texts. A name that ends in a pointer after some labels is misread: after the pointer the code
  also skips a zero byte, which is the first byte of the record type.
\<close>

section \<open>Queries\<close>

definition query_header :: bytes where
  "query_header = [0xab, 0xcd, 0x01, 0x00, 0x00, 0x01, 0x00, 0x00, 0x00, 0x00, 0x00, 0x00]"

text \<open>The loop over \<open>domain.split('.')\<close>; the length is cast to \<open>u8\<close>.\<close>

fun push_labels :: "bytes list \<Rightarrow> bytes" where
  "push_labels [] = []"
| "push_labels (part # parts) = of_nat (length part) # part @ push_labels parts"

definition build_txt_record_query :: "bytes \<Rightarrow> bytes" where
  "build_txt_record_query domain =
     query_header @ push_labels (split_byte 0x2E domain) @ [0] @ [0x00, 0x10, 0x00, 0x01]"

definition build_a_record_query :: "bytes \<Rightarrow> bytes" where
  "build_a_record_query domain =
     query_header @ push_labels (split_byte 0x2E domain) @ [0] @ [0x00, 0x01, 0x00, 0x01]"

section \<open>Parsers\<close>

text \<open>
  The loop that steps over the labels of a name, up to a zero byte or past a pointer. Every access is
  checked, so that one out of range would be a panic.
\<close>

function skip_labels :: "bytes \<Rightarrow> nat \<Rightarrow> nat opt" where
  "skip_labels data offset =
     (if offset < length data then
        and_then (index_at data offset) (\<lambda>b.
        if b = 0 then Ok offset
        else if b AND 0xC0 = 0xC0 then Ok (offset + 2)
        else skip_labels data (offset + unat b + 1))
      else Ok offset)"
  by pat_completeness auto
termination
  by (relation "measure (\<lambda>(data, offset). length data - offset)") auto

declare skip_labels.simps [simp del]

definition skip_name :: "bytes \<Rightarrow> nat \<Rightarrow> nat opt" where
  "skip_name data offset =
     and_then (skip_labels data offset) (\<lambda>o1.
     if o1 < length data
     then and_then (index_at data o1) (\<lambda>b. Ok (if b = 0 then o1 + 1 else o1)) else Ok o1)"

text \<open>The owner name of an answer: a pointer at its start is two bytes, with nothing after it.\<close>

definition skip_owner :: "bytes \<Rightarrow> nat \<Rightarrow> nat opt" where
  "skip_owner data offset =
     and_then (index_at data offset) (\<lambda>b.
     if b AND 0xC0 = 0xC0 then Ok (offset + 2) else skip_name data offset)"

text \<open>\<open>for _ in 0..ancount\<close> in \<open>parse_dns_response\<close>, with \<open>n\<close> answers to go.\<close>

fun a_answers :: "nat \<Rightarrow> bytes \<Rightarrow> nat \<Rightarrow> ip_addr opt" where
  "a_answers 0 data offset = none"
| "a_answers (Suc n) data offset =
     (if offset + 12 > length data then none else
      and_then (skip_owner data offset) (\<lambda>o1.
      if o1 + 10 > length data then none else
      and_then (read_u16_be data o1) (\<lambda>atype.
      and_then (read_u16_be data (o1 + 8)) (\<lambda>rdlen. let rdlength = unat rdlen; o2 = o1 + 10 in
      if atype = 1 \<and> rdlength = 4 \<and> o2 + 4 \<le> length data then
        and_then (index_at data o2) (\<lambda>b0. and_then (index_at data (o2 + 1)) (\<lambda>b1.
        and_then (index_at data (o2 + 2)) (\<lambda>b2. and_then (index_at data (o2 + 3)) (\<lambda>b3.
        Ok (V4 b0 b1 b2 b3)))))
      else a_answers n data (o2 + rdlength)))))"

definition parse_dns_response :: "bytes \<Rightarrow> ip_addr opt" where
  "parse_dns_response data =
     (if length data < 12 then none else
      and_then (read_u16_be data 6) (\<lambda>ancount.
      and_then (skip_name data 12) (\<lambda>offset. a_answers (unat ancount) data (offset + 4))))"

text \<open>The chunks of a TXT record: each is a length byte and that many bytes.\<close>

function txt_chunks :: "bytes \<Rightarrow> nat \<Rightarrow> bytes opt" where
  "txt_chunks rdata i =
     (if i < length rdata then
        and_then (index_at rdata i) (\<lambda>b. let chunk_len = unat b in
        if i + 1 + chunk_len > length rdata then Ok [] else
        and_then (slice rdata (i + 1) (i + 1 + chunk_len)) (\<lambda>chunk.
        and_then (txt_chunks rdata (i + 1 + chunk_len)) (\<lambda>rest. Ok (chunk @ rest))))
      else Ok [])"
  by pat_completeness auto
termination
  by (relation "measure (\<lambda>(rdata, i). length rdata - i)") auto

declare txt_chunks.simps [simp del]

fun txt_answers :: "nat \<Rightarrow> bytes \<Rightarrow> nat \<Rightarrow> (unit, bytes list) result" where
  "txt_answers 0 data offset = Ok []"
| "txt_answers (Suc n) data offset =
     (if offset \<ge> length data then Ok [] else
      if offset + 2 > length data then Ok [] else
      and_then (skip_owner data offset) (\<lambda>o1.
      if o1 + 10 > length data then Ok [] else
      and_then (read_u16_be data o1) (\<lambda>rtype.
      and_then (read_u16_be data (o1 + 8)) (\<lambda>rdlen. let rdlength = unat rdlen; o2 = o1 + 10 in
      if o2 + rdlength > length data then Ok [] else
      and_then (if rtype = 16 then and_then (slice data o2 (o2 + rdlength)) (\<lambda>rdata. txt_chunks rdata 0)
        else Ok []) (\<lambda>txt_data.
      and_then (txt_answers n data (o2 + rdlength)) (\<lambda>results.
      Ok (if txt_data \<noteq> [] then txt_data # results else results)))))))"

definition parse_txt_response :: "bytes \<Rightarrow> (unit, bytes list) result" where
  "parse_txt_response data =
     (if length data < 12 then Ok [] else
      and_then (read_u16_be data 6) (\<lambda>ancount.
      and_then (skip_name data 12) (\<lambda>offset. txt_answers (unat ancount) data (offset + 4))))"

section \<open>No panic\<close>

text \<open>Every index and slice is in range: the helpers return.\<close>

lemma skip_labels_returns: "\<exists>o1. skip_labels data offset = Ok o1"
proof (induction data offset rule: skip_labels.induct)
  case (1 data offset)
  then show ?case by (subst skip_labels.simps) auto
qed

lemma skip_name_returns: "\<exists>o1. skip_name data offset = Ok o1"
proof -
  obtain o1 where "skip_labels data offset = Ok o1" using skip_labels_returns by blast
  then show ?thesis by (simp add: skip_name_def del: and_then_eq_Ok)
qed

lemma skip_owner_returns: "offset < length data \<Longrightarrow> \<exists>o1. skip_owner data offset = Ok o1"
  using skip_name_returns by (auto simp: skip_owner_def simp del: and_then_eq_Ok)

lemma txt_chunks_returns: "\<exists>c. txt_chunks rdata i = Ok c"
proof (induction rdata i rule: txt_chunks.induct)
  case (1 rdata i)
  show ?case
  proof (cases "i < length rdata \<and> \<not> i + 1 + unat (rdata ! i) > length rdata")
    case True
    with 1 [of "rdata ! i"] show ?thesis by (subst txt_chunks.simps) (auto simp: Let_def)
  next
    case False
    then show ?thesis by (subst txt_chunks.simps) (auto simp: Let_def)
  qed
qed

lemma read_u16_be_returns: "i + 2 \<le> length xs \<Longrightarrow> \<exists>w. read_u16_be xs i = Ok w"
  by (simp add: read_u16_be_in_range)

lemma a_answers_no_panic [no_panic]: "a_answers n data offset \<noteq> Panic"
proof (induction n arbitrary: offset)
  case (Suc n)
  show ?case
  proof (cases "offset + 12 > length data")
    case False
    then obtain o1 where o1: "skip_owner data offset = Ok o1"
      using skip_owner_returns [of offset data] by auto
    show ?thesis
    proof (cases "o1 + 10 > length data")
      case in_range: False
      then obtain w w' where "(read_u16_be data o1 :: u16 opt) = Ok w" "(read_u16_be data (o1 + 8) :: u16 opt) = Ok w'"
        using read_u16_be_returns [of o1 data] read_u16_be_returns [of "o1 + 8" data] by auto
      then show ?thesis using False o1 in_range Suc by (simp add: Let_def)
    qed (use False o1 in simp)
  qed simp
qed simp

lemma txt_answers_returns: "\<exists>texts. txt_answers n data offset = Ok texts"
proof (induction n arbitrary: offset)
  case (Suc n)
  show ?case
  proof (cases "offset \<ge> length data \<or> offset + 2 > length data")
    case False
    then obtain o1 where o1: "skip_owner data offset = Ok o1"
      using skip_owner_returns [of offset data] by auto
    show ?thesis
    proof (cases "o1 + 10 > length data")
      case in_range: False
      then obtain w w' where w: "(read_u16_be data o1 :: (unit, u16) result) = Ok w"
        "(read_u16_be data (o1 + 8) :: (unit, u16) result) = Ok w'"
        using read_u16_be_returns [of o1 data] read_u16_be_returns [of "o1 + 8" data] by auto
      show ?thesis
      proof (cases "o1 + 10 + unat w' > length data")
        case fits: False
        obtain c where "txt_chunks (take (unat w') (drop (o1 + 10) data)) 0 = Ok c"
          using txt_chunks_returns by blast
        moreover obtain texts where "txt_answers n data (o1 + 10 + unat w') = Ok texts" using Suc by blast
        ultimately show ?thesis
          using False o1 in_range w fits by (simp add: Let_def not_less del: and_then_eq_Ok)
      qed (use False o1 in_range w in \<open>simp add: Let_def not_less del: and_then_eq_Ok\<close>)
    qed (use False o1 in \<open>simp del: and_then_eq_Ok\<close>)
  qed auto
qed simp

lemma parse_dns_no_panic [no_panic]: "parse_dns_response data \<noteq> Panic"
proof -
  obtain o1 where "skip_name data 12 = Ok o1" using skip_name_returns by blast
  then show ?thesis by (simp add: parse_dns_response_def read_u16_be_in_range a_answers_no_panic)
qed

lemma parse_txt_returns: "\<exists>texts. parse_txt_response data = Ok texts"
proof -
  obtain o1 where "skip_name data 12 = Ok o1" using skip_name_returns by blast
  then show ?thesis
    using txt_answers_returns by (simp add: parse_txt_response_def read_u16_be_in_range del: and_then_eq_Ok)
qed

lemma parse_txt_no_panic [no_panic]: "parse_txt_response data \<noteq> Panic"
  using parse_txt_returns [of data] by auto

lemma parse_txt_no_error: "parse_txt_response data \<noteq> Err e"
  using parse_txt_returns [of data] by auto

section \<open>The wire format\<close>

text \<open>An owner name: a pointer, or all labels of a name.\<close>

datatype dns_name = Pointer u8 u8 | Labels "bytes list"

fun name_bytes :: "dns_name \<Rightarrow> bytes" where
  "name_bytes (Pointer a b) = [a, b]"
| "name_bytes (Labels ls) = push_labels ls @ [0]"

fun name_wf :: "dns_name \<Rightarrow> bool" where
  "name_wf (Pointer a b) = (a AND 0xC0 = 0xC0)"
| "name_wf (Labels ls) = list_all (\<lambda>l. 0 < length l \<and> length l \<le> 63) ls"

record dns_rr =
  rr_name :: dns_name
  rr_type :: u16
  rr_class :: u16
  rr_ttl :: u32
  rr_data :: bytes

definition rr_bytes :: "dns_rr \<Rightarrow> bytes" where
  "rr_bytes r =
     name_bytes (rr_name r) @ to_be 2 (unat (rr_type r)) @ to_be 2 (unat (rr_class r)) @
     to_be 4 (unat (rr_ttl r)) @ to_be 2 (length (rr_data r)) @ rr_data r"

definition rr_wf :: "dns_rr \<Rightarrow> bool" where
  "rr_wf r \<longleftrightarrow> name_wf (rr_name r) \<and> length (rr_data r) < 2 ^ 16"

text \<open>
  A response: six bytes of header, the answer count, four more bytes of header, one question with
  its type and class, the answers, and whatever follows them.
\<close>

definition dns_response :: "bytes \<Rightarrow> bytes \<Rightarrow> bytes list \<Rightarrow> bytes \<Rightarrow> dns_rr list \<Rightarrow> bytes \<Rightarrow> bytes" where
  "dns_response head head' question qtype answers trailer =
     head @ to_be 2 (length answers) @ head' @ name_bytes (Labels question) @ qtype @
     concat (map rr_bytes answers) @ trailer"

definition response_wf :: "bytes \<Rightarrow> bytes \<Rightarrow> bytes list \<Rightarrow> bytes \<Rightarrow> dns_rr list \<Rightarrow> bool" where
  "response_wf head head' question qtype answers \<longleftrightarrow>
     length head = 6 \<and> length head' = 4 \<and> length qtype = 4 \<and> name_wf (Labels question) \<and>
     length answers < 2 ^ 16 \<and> list_all rr_wf answers"

fun first_a :: "dns_rr list \<Rightarrow> ip_addr opt" where
  "first_a [] = none"
| "first_a (r # rs) =
     (case rr_data r of
        [b0, b1, b2, b3] \<Rightarrow> if rr_type r = 1 then Ok (V4 b0 b1 b2 b3) else first_a rs
      | _ \<Rightarrow> first_a rs)"

text \<open>The data of a TXT record with the given chunks.\<close>

definition txt_wf :: "bytes list \<Rightarrow> bool" where
  "txt_wf chunks \<longleftrightarrow> list_all (\<lambda>c. length c < 256) chunks"

section \<open>Reading at an offset\<close>

definition rest_is :: "'a list \<Rightarrow> nat \<Rightarrow> 'a list \<Rightarrow> bool" where
  "rest_is xs i ys \<longleftrightarrow> i \<le> length xs \<and> drop i xs = ys"

lemma rest_is_length: "rest_is xs i ys \<Longrightarrow> length xs = i + length ys"
  by (auto simp: rest_is_def)

lemma rest_is_append:
  assumes "rest_is xs i (ys @ zs)"
  shows "rest_is xs (i + length ys) zs"
proof -
  have "drop (i + length ys) xs = drop (length ys) (drop i xs)"
    by (simp add: add.commute)
  also have "\<dots> = zs" using assms by (simp add: rest_is_def)
  finally show ?thesis
    using rest_is_length [OF assms] by (simp add: rest_is_def)
qed

lemma rest_is_Cons:
  assumes "rest_is xs i (y # ys)"
  shows "i < length xs \<and> xs ! i = y \<and> rest_is xs (Suc i) ys"
proof -
  have "drop i xs = y # ys" using assms by (simp add: rest_is_def)
  then have "xs ! i = y" by (rule nth_via_drop)
  then show ?thesis
    using rest_is_append [of xs i "[y]" ys] rest_is_length [OF assms] assms by simp
qed

lemma rest_is_index:
  assumes "rest_is xs i ys" and "k < length ys"
  shows "index_at xs (i + k) = Ok (ys ! k)"
proof -
  have "ys ! k = xs ! (i + k)"
    using assms(1) nth_drop [of i xs k] unfolding rest_is_def by metis
  then show ?thesis
    using assms(2) rest_is_length [OF assms(1)] by simp
qed

lemma rest_is_take: "rest_is xs i (ys @ zs) \<Longrightarrow> take (length ys) (drop i xs) = ys"
  by (auto simp: rest_is_def)

lemma rest_is_u16:
  assumes r: "rest_is xs i (to_be 2 v @ zs)" and v: "v < 2 ^ 16"
  shows "read_u16_be xs i = Ok (of_nat v)"
proof -
  have "take 2 (drop i xs) = to_be 2 v" using rest_is_take [OF r] by simp
  moreover have "i + 2 \<le> length xs" using rest_is_length [OF r] by simp
  moreover have "be_nat (to_be 2 v) = v" using v by (simp add: be_nat_to_be)
  ultimately show ?thesis by (simp only: read_u16_be_in_range u16_be_def)
qed

lemma no_pointer_bits: "x \<le> 63 \<Longrightarrow> x AND 0xC0 \<noteq> (0xC0 :: u8)"
proof
  assume "x \<le> 63" and "x AND 0xC0 = 0xC0"
  then have "(0xC0 :: u8) \<le> 63"
    using word_and_le2 [of x "0xC0"] by (metis order_trans)
  then show False by simp
qed

lemma length_byte: "0 < n \<Longrightarrow> n \<le> 63 \<Longrightarrow> unat (of_nat n :: u8) = n \<and> (of_nat n :: u8) \<noteq> 0 \<and> (of_nat n :: u8) \<le> 63"
  by (auto simp: unat_of_nat word_le_nat_alt word_unat_eq_iff)

lemma skip_labels_names:
  "rest_is data i (push_labels ls @ 0 # ys) \<Longrightarrow> name_wf (Labels ls) \<Longrightarrow>
     skip_labels data i = Ok (i + length (push_labels ls))"
proof (induction ls arbitrary: i)
  case Nil
  from rest_is_Cons [of data i 0 ys] Nil show ?case
    by (subst skip_labels.simps) simp
next
  case (Cons l ls)
  let ?n = "of_nat (length l) :: u8"
  have l: "unat ?n = length l" "?n \<noteq> 0" "?n AND 0xC0 \<noteq> 0xC0"
    using Cons.prems(2) length_byte [of "length l"] no_pointer_bits by auto
  have "rest_is data i (?n # (l @ push_labels ls @ 0 # ys))"
    using Cons.prems(1) by simp
  from rest_is_Cons [OF this]
  have at: "i < length data" "data ! i = ?n" "rest_is data (Suc i) (l @ push_labels ls @ 0 # ys)"
    by auto
  have "skip_labels data (Suc i + length l) = Ok (Suc i + length l + length (push_labels ls))"
    by (rule Cons.IH) (use rest_is_append [OF at(3)] Cons.prems(2) in simp_all)
  with at l show ?case
    by (subst skip_labels.simps) simp
qed

lemma skip_name_labels:
  assumes "rest_is data i (name_bytes (Labels ls) @ ys)" and "name_wf (Labels ls)"
  shows "skip_name data i = Ok (i + length (name_bytes (Labels ls)))"
proof -
  have r: "rest_is data i (push_labels ls @ 0 # ys)" using assms(1) by simp
  from rest_is_Cons [OF rest_is_append [OF r]] skip_labels_names [OF r assms(2)] show ?thesis
    by (simp add: skip_name_def del: and_then_eq_Ok)
qed

lemma skip_owner_name:
  assumes r: "rest_is data i (name_bytes n @ ys)" and n: "name_wf n"
  shows "skip_owner data i = Ok (i + length (name_bytes n))"
proof (cases n)
  case (Pointer a b)
  then show ?thesis
    using rest_is_Cons [of data i a "b # ys"] r n by (simp add: skip_owner_def)
next
  case (Labels ls)
  have "i < length data \<and> \<not> data ! i AND 0xC0 = 0xC0"
  proof (cases ls)
    case Nil
    then show ?thesis using rest_is_Cons [of data i 0 ys] r Labels by simp
  next
    case (Cons l ls')
    then show ?thesis
      using rest_is_Cons [of data i "of_nat (length l)" "l @ push_labels ls' @ 0 # ys"] r n Labels
        length_byte [of "length l"] no_pointer_bits by auto
  qed
  then show ?thesis
    using skip_name_labels [of data i ls ys] r n Labels by (simp add: skip_owner_def)
qed

section \<open>The answer section\<close>

text \<open>What a parser reads of a well-formed record at an offset.\<close>

lemma rr_read:
  assumes "rest_is data i (rr_bytes r @ ys)" and "rr_wf r"
  defines "o1 \<equiv> i + length (name_bytes (rr_name r))"
  shows "skip_owner data i = Ok o1" and "o1 + 10 \<le> length data"
    and "read_u16_be data o1 = Ok (rr_type r)"
    and "read_u16_be data (o1 + 8) = Ok (of_nat (length (rr_data r)))"
    and "unat (of_nat (length (rr_data r)) :: u16) = length (rr_data r)"
    and "rest_is data (o1 + 10) (rr_data r @ ys)"
proof -
  let ?ttl = "to_be 4 (unat (rr_ttl r))" and ?len = "to_be 2 (length (rr_data r))"
  have n: "name_wf (rr_name r)" and len: "length (rr_data r) < 2 ^ 16"
    using assms(2) by (simp_all add: rr_wf_def)
  have r0: "rest_is data i (name_bytes (rr_name r) @ to_be 2 (unat (rr_type r)) @
      to_be 2 (unat (rr_class r)) @ ?ttl @ ?len @ rr_data r @ ys)"
    using assms(1) by (simp add: rr_bytes_def)
  show "skip_owner data i = Ok o1"
    using skip_owner_name [OF r0 n] by (simp add: o1_def)
  have r1: "rest_is data o1 (to_be 2 (unat (rr_type r)) @ to_be 2 (unat (rr_class r)) @ ?ttl @ ?len @
      rr_data r @ ys)"
    using rest_is_append [OF r0] by (simp add: o1_def)
  have "unat (rr_type r) < 2 ^ 16"
    using unsigned_less [where ?'a = nat, of "rr_type r"] by simp
  from rest_is_u16 [OF r1 this] show "read_u16_be data o1 = Ok (rr_type r)" by simp
  have r2: "rest_is data (o1 + 8) (?len @ rr_data r @ ys)"
    using rest_is_append [OF rest_is_append [OF rest_is_append [OF r1]]] by (simp add: add.commute)
  from rest_is_u16 [OF r2 len]
  show "read_u16_be data (o1 + 8) = Ok (of_nat (length (rr_data r)))" .
  show "rest_is data (o1 + 10) (rr_data r @ ys)"
    using rest_is_append [OF r2] by (simp add: add.commute)
  from rest_is_length [OF this] show "o1 + 10 \<le> length data" by simp
  show "unat (of_nat (length (rr_data r)) :: u16) = length (rr_data r)"
    using len by (simp add: unat_of_nat)
qed

lemma length_rr_bytes: "length (rr_bytes r) = length (name_bytes (rr_name r)) + 10 + length (rr_data r)"
  by (simp add: rr_bytes_def)

lemma length_name_bytes: "1 \<le> length (name_bytes n)"
  by (cases n) auto

lemma first_a_no_room:
  "length (concat (map rr_bytes rs)) < 12 \<Longrightarrow> first_a rs = none"
proof (induction rs)
  case (Cons r rs)
  have "length (rr_data r) < 4"
    using Cons.prems length_name_bytes [of "rr_name r"] by (simp add: length_rr_bytes)
  then show ?case using Cons by (auto split: list.splits)
qed simp

lemma a_answers_records:
  "rest_is data i (concat (map rr_bytes rs) @ ys) \<Longrightarrow> list_all rr_wf rs \<Longrightarrow>
     a_answers (length rs) data i = first_a rs"
proof (induction rs arbitrary: i)
  case (Cons r rs)
  let ?o = "i + length (name_bytes (rr_name r))"
  have r: "rest_is data i (rr_bytes r @ concat (map rr_bytes rs) @ ys)" and wf: "rr_wf r"
    using Cons.prems by simp_all
  note read = rr_read [OF r wf]
  have rest: "a_answers (length rs) data (?o + 10 + length (rr_data r)) = first_a rs"
    using Cons.IH rest_is_append [OF read(6)] Cons.prems(2) by simp
  show ?case
  proof (cases "i + 12 > length data")
    case True
    then have "first_a (r # rs) = none"
      using rest_is_length [OF Cons.prems(1)] by (intro first_a_no_room) simp
    then show ?thesis using True by simp
  next
    case False
    show ?thesis
    proof (cases "rr_type r = 1 \<and> length (rr_data r) = 4")
      case True
      then obtain b0 b1 b2 b3 where d: "rr_data r = [b0, b1, b2, b3]"
        by (auto simp: length_Suc_conv eval_nat_numeral)
      have at: "rest_is data (?o + 10) (b0 # b1 # b2 # b3 # concat (map rr_bytes rs) @ ys)"
        using read(6) d by simp
      have "index_at data (?o + 10) = (Ok b0 :: u8 opt)" "index_at data (?o + 10 + 1) = (Ok b1 :: u8 opt)"
        "index_at data (?o + 10 + 2) = (Ok b2 :: u8 opt)" "index_at data (?o + 10 + 3) = (Ok b3 :: u8 opt)"
        using rest_is_index [OF at, of 0] rest_is_index [OF at, of 1] rest_is_index [OF at, of 2]
          rest_is_index [OF at, of 3] by simp_all
      then show ?thesis
        using False True d rest_is_length [OF read(6)] by (simp add: Let_def read(1-5) del: and_then_eq_Ok)
    next
      case no: False
      have "first_a (r # rs) = first_a rs"
        using no by (auto split: list.splits)
      then show ?thesis
        using False no rest read(2) by (auto simp: Let_def read(1,3,4,5))
    qed
  qed
qed simp

lemma response_header:
  fixes head head' qtype trailer :: bytes and question :: "bytes list" and answers :: "dns_rr list"
  assumes "response_wf head head' question qtype answers"
  defines "data \<equiv> dns_response head head' question qtype answers trailer"
  shows "12 \<le> length data" and "read_u16_be data 6 = Ok (of_nat (length answers))"
    and "unat (of_nat (length answers) :: u16) = length answers"
    and "\<exists>offset. skip_name data 12 = Ok offset \<and>
      rest_is data (offset + 4) (concat (map rr_bytes answers) @ trailer)"
proof -
  have wf: "length head = 6" "length head' = 4" "length qtype = 4" "name_wf (Labels question)"
      "length answers < 2 ^ 16"
    using assms(1) by (simp_all add: response_wf_def)
  have r0: "rest_is data 0 (head @ to_be 2 (length answers) @ head' @ name_bytes (Labels question) @
      qtype @ concat (map rr_bytes answers) @ trailer)"
    by (simp add: rest_is_def data_def dns_response_def)
  from rest_is_append [OF r0] have r1: "rest_is data 6 (to_be 2 (length answers) @ head' @
      name_bytes (Labels question) @ qtype @ concat (map rr_bytes answers) @ trailer)"
    by (simp add: wf)
  from rest_is_u16 [OF r1 wf(5)] show "read_u16_be data 6 = Ok (of_nat (length answers))" .
  from rest_is_append [OF rest_is_append [OF r1]]
  have r2: "rest_is data 12 (name_bytes (Labels question) @ qtype @ concat (map rr_bytes answers) @ trailer)"
    by (simp add: wf(2))
  from rest_is_length [OF this] show "12 \<le> length data" by simp
  show "\<exists>offset. skip_name data 12 = Ok offset \<and>
      rest_is data (offset + 4) (concat (map rr_bytes answers) @ trailer)"
    using rest_is_append [OF rest_is_append [OF r2]] skip_name_labels [OF r2 wf(4)] wf(3)
    by simp
  show "unat (of_nat (length answers) :: u16) = length answers"
    using wf(5) by (simp add: unat_of_nat)
qed

lemma parse_dns_encoded:
  assumes "response_wf head head' question qtype answers"
  shows "parse_dns_response (dns_response head head' question qtype answers trailer) = first_a answers"
proof -
  note h = response_header(1,2) [OF assms, where trailer = trailer] response_header(3) [OF assms]
  obtain offset where o: "skip_name (dns_response head head' question qtype answers trailer) 12 = Ok offset"
    "rest_is (dns_response head head' question qtype answers trailer) (offset + 4)
      (concat (map rr_bytes answers) @ trailer)"
    using response_header(4) [OF assms] by blast
  have "list_all rr_wf answers" using assms by (simp add: response_wf_def)
  from a_answers_records [OF o(2) this] h(1) show ?thesis
    by (simp add: parse_dns_response_def not_less h(2,3) o(1))
qed

section \<open>The TXT records\<close>

lemma txt_chunks_encoded:
  "rest_is xs i (push_labels cs) \<Longrightarrow> txt_wf cs \<Longrightarrow> txt_chunks xs i = Ok (concat cs)"
proof (induction cs arbitrary: i)
  case Nil
  then show ?case
    using rest_is_length [of xs i "[]"] by (subst txt_chunks.simps) simp
next
  case (Cons c cs)
  let ?n = "of_nat (length c) :: u8"
  have n: "unat ?n = length c"
    using Cons.prems(2) by (simp add: txt_wf_def unat_of_nat)
  have "rest_is xs i (?n # (c @ push_labels cs))"
    using Cons.prems(1) by simp
  from rest_is_Cons [OF this]
  have at: "i < length xs" "xs ! i = ?n" "rest_is xs (Suc i) (c @ push_labels cs)" by auto
  have "txt_chunks xs (Suc i + length c) = Ok (concat cs)"
    using Cons.IH rest_is_append [OF at(3)] Cons.prems(2) by (simp add: txt_wf_def)
  moreover have "take (length c) (drop (Suc i) xs) = c"
    using rest_is_take [OF at(3)] .
  ultimately show ?case
    using at(1,2) rest_is_length [OF at(3)] n
    by (subst txt_chunks.simps) (simp add: Let_def del: and_then_eq_Ok)
qed

text \<open>The texts of the TXT records among the answers, those that have any.\<close>

fun txt_texts :: "dns_rr list \<Rightarrow> bytes list" where
  "txt_texts [] = []"
| "txt_texts (r # rs) =
     (case (if rr_type r = 16 then txt_chunks (rr_data r) 0 else Ok []) of
        Ok (b # bs) \<Rightarrow> (b # bs) # txt_texts rs
      | _ \<Rightarrow> txt_texts rs)"

lemma txt_answers_records:
  "rest_is data i (concat (map rr_bytes rs) @ ys) \<Longrightarrow> list_all rr_wf rs \<Longrightarrow>
     txt_answers (length rs) data i = Ok (txt_texts rs)"
proof (induction rs arbitrary: i)
  case (Cons r rs)
  let ?o = "i + length (name_bytes (rr_name r))"
  have r: "rest_is data i (rr_bytes r @ concat (map rr_bytes rs) @ ys)" and wf: "rr_wf r"
    using Cons.prems by simp_all
  note read = rr_read [OF r wf]
  have rest: "txt_answers (length rs) data (?o + 10 + length (rr_data r)) = Ok (txt_texts rs)"
    using Cons.IH rest_is_append [OF read(6)] Cons.prems(2) by simp
  have "\<not> length data < ?o + 10 + length (rr_data r)" "?o + 10 \<le> length data"
      "take (length (rr_data r)) (drop (?o + 10) data) = rr_data r"
    using rest_is_length [OF read(6)] rest_is_take [OF read(6)] read(2) by simp_all
  moreover have "\<not> length data \<le> i" "\<not> length data < i + 2"
    using read(2) length_name_bytes [of "rr_name r"] by linarith+
  moreover obtain c where "txt_chunks (rr_data r) 0 = Ok c" using txt_chunks_returns by blast
  ultimately show ?case
    using rest by (cases c) (simp_all add: Let_def read(1,3,4,5) del: and_then_eq_Ok)
qed simp

lemma parse_txt_encoded:
  assumes "response_wf head head' question qtype answers"
  shows "parse_txt_response (dns_response head head' question qtype answers trailer) =
    Ok (txt_texts answers)"
proof -
  note h = response_header(1,2) [OF assms, where trailer = trailer] response_header(3) [OF assms]
  obtain offset where o: "skip_name (dns_response head head' question qtype answers trailer) 12 = Ok offset"
    "rest_is (dns_response head head' question qtype answers trailer) (offset + 4)
      (concat (map rr_bytes answers) @ trailer)"
    using response_header(4) [OF assms] by blast
  have "list_all rr_wf answers" using assms by (simp add: response_wf_def)
  from txt_answers_records [OF o(2) this] h(1) show ?thesis
    by (simp add: parse_txt_response_def not_less h(2,3) o(1) del: and_then_eq_Ok)
qed

lemma txt_texts_eq:
  "\<forall>r\<in>set rs. rr_type r = 16 \<longrightarrow> (\<exists>cs. txt_wf cs \<and> rr_data r = push_labels cs \<and> text_of r = concat cs) \<Longrightarrow>
     txt_texts rs = filter (\<lambda>t. t \<noteq> []) (map text_of (filter (\<lambda>r. rr_type r = 16) rs))"
proof (induction rs)
  case (Cons r rs)
  have "txt_chunks (rr_data r) 0 = Ok (text_of r)" if "rr_type r = 16"
    using Cons.prems that txt_chunks_encoded [of "rr_data r" 0] by (force simp: rest_is_def)
  with Cons show ?case by (simp split: list.split)
qed simp

section \<open>A name that ends in a pointer\<close>

text \<open>
  An answer for \<open>b.a\<close>, where \<open>a\<close> is the name of the question, with the owner name written as the
  label \<open>b\<close> and a pointer to the question: a valid compression (RFC 1035, 4.1.4). The response holds
  one A record, and the parser reports none.
\<close>

definition compressed_response :: bytes where
  "compressed_response =
     [0xab, 0xcd, 0x81, 0x80, 0, 1, 0, 1, 0, 0, 0, 0,
      1, 0x61, 0, 0, 1, 0, 1,
      1, 0x62, 0xC0, 12, 0, 1, 0, 1, 0, 0, 0, 60, 0, 4, 192, 0, 2, 1]"

lemma compressed_owner_misread: "parse_dns_response compressed_response = none"
  by (simp add: compressed_response_def parse_dns_response_def read_u16_be_def u16_be_def be_nat_def
      skip_name_def skip_owner_def skip_labels.simps index_at_def)

section \<open>Properties\<close>

text \<open>
  C16. The queries ask for the domain: for a domain made of labels of at most 63 bytes the query is
  the header, the encoded name and the record type and class, and the parsers' own walk over the
  question ends exactly at its end.
\<close>

theorem dns_query_encodes_domain:
  assumes "ls \<noteq> []" and "name_wf (Labels ls)" and "\<forall>l\<in>set ls. 0x2E \<notin> set l"
  shows "build_a_record_query (join_byte 0x2E ls) = query_header @ name_bytes (Labels ls) @ [0, 1, 0, 1] \<and>
    build_txt_record_query (join_byte 0x2E ls) = query_header @ name_bytes (Labels ls) @ [0, 16, 0, 1] \<and>
    (\<exists>offset. skip_name (build_a_record_query (join_byte 0x2E ls)) 12 = Ok offset \<and>
       offset + 4 = length (build_a_record_query (join_byte 0x2E ls)))"
proof -
  have a: "build_a_record_query (join_byte 0x2E ls) = query_header @ name_bytes (Labels ls) @ [0, 1, 0, 1]"
    and t: "build_txt_record_query (join_byte 0x2E ls) = query_header @ name_bytes (Labels ls) @ [0, 16, 0, 1]"
    using split_join [OF assms(1,3)] by (simp_all add: build_a_record_query_def build_txt_record_query_def)
  have "rest_is (build_a_record_query (join_byte 0x2E ls)) 12 (name_bytes (Labels ls) @ [0, 1, 0, 1])"
    by (simp add: a rest_is_def query_header_def)
  from skip_name_labels [OF this assms(2)] rest_is_length [OF this] a t show ?thesis
    by simp
qed

theorem dns_query_encodes_domain_witness:
  "build_a_record_query (lit ''github.com'') =
     query_header @ [6] @ lit ''github'' @ [3] @ lit ''com'' @ [0, 0, 1, 0, 1]"
  using dns_query_encodes_domain [of "[lit ''github'', lit ''com'']"] by simp

text \<open>
  C17. On a response whose owner names are pointers or full names, the parser returns the address of
  the first A record with four bytes of data among the answers, whatever the other records, the
  header and the trailing sections are, and nothing when there is no such record.
\<close>

theorem dns_response_first_address:
  assumes "response_wf head head' question qtype answers"
  shows "parse_dns_response (dns_response head head' question qtype answers trailer) = first_a answers"
  using assms by (rule parse_dns_encoded)

theorem dns_response_first_address_witness:
  "parse_dns_response (dns_response [0xab, 0xcd, 0x81, 0x80, 0, 1] [0, 0, 0, 0]
     [lit ''github'', lit ''com''] [0, 1, 0, 1]
     [\<lparr>rr_name = Pointer 0xC0 12, rr_type = 5, rr_class = 1, rr_ttl = 60, rr_data = [1, 0x61, 0]\<rparr>,
      \<lparr>rr_name = Pointer 0xC0 40, rr_type = 1, rr_class = 1, rr_ttl = 60, rr_data = [140, 82, 121, 4]\<rparr>] [])
   = Ok (V4 140 82 121 4)"
  by (subst dns_response_first_address) (simp_all add: response_wf_def rr_wf_def)

text \<open>
  C18. On such a response the TXT parser returns the texts of all TXT records in order, each the
  concatenation of its chunks, without the empty ones.
\<close>

theorem txt_response_texts:
  assumes "response_wf head head' question qtype answers"
    and "\<forall>r\<in>set answers. rr_type r = 16 \<longrightarrow>
      (\<exists>cs. txt_wf cs \<and> rr_data r = push_labels cs \<and> text_of r = concat cs)"
  shows "parse_txt_response (dns_response head head' question qtype answers trailer) =
    Ok (filter (\<lambda>t. t \<noteq> []) (map text_of (filter (\<lambda>r. rr_type r = 16) answers)))"
  using parse_txt_encoded [OF assms(1)] txt_texts_eq [OF assms(2)] by simp

theorem txt_response_texts_witness:
  "parse_txt_response (dns_response [0xab, 0xcd, 0x81, 0x80, 0, 1] [0, 0, 0, 0] [lit ''a''] [0, 16, 0, 1]
     [\<lparr>rr_name = Pointer 0xC0 12, rr_type = 16, rr_class = 1, rr_ttl = 60, rr_data = [2, 7, 8, 1, 9]\<rparr>] [])
   = Ok [[7, 8, 9]]"
proof -
  let ?r = "\<lparr>rr_name = Pointer 0xC0 12, rr_type = 16, rr_class = 1, rr_ttl = 60, rr_data = [2, 7, 8, 1, 9]\<rparr>"
  have wf: "response_wf [0xab, 0xcd, 0x81, 0x80, 0, 1] [0, 0, 0, 0] [lit ''a''] [0, 16, 0, 1] [?r]"
    by (simp add: response_wf_def rr_wf_def)
  have "txt_wf [[7, 8], [9]] \<and> rr_data ?r = push_labels [[7, 8], [9]] \<and> [7, 8, 9] = concat [[7, 8], [9::u8]]"
    by (simp add: txt_wf_def)
  then have "\<forall>r\<in>set [?r]. rr_type r = 16 \<longrightarrow>
      (\<exists>cs. txt_wf cs \<and> rr_data r = push_labels cs \<and> [7, 8, 9] = concat cs)"
    by (metis empty_iff empty_set set_ConsD)
  from txt_response_texts [OF wf this] show ?thesis by simp
qed

text \<open>
  C19. No response makes a parser index out of range: whatever bytes arrive, both return.
\<close>

theorem dns_parsers_never_panic:
  "parse_dns_response data \<noteq> Panic \<and> (\<exists>texts. parse_txt_response data = Ok texts)"
  using parse_dns_no_panic parse_txt_no_panic parse_txt_no_error by (metis result.exhaust)

end
