(* ===== verification/Dnscrypt_Codec.thy ===== *)
theory Dnscrypt_Codec
  imports Roughtime_Query
begin

text \<open>
  The pure part of the DNSCrypt client of \<open>src/dns.rs\<close>: certificates (\<open>verify_cert\<close>), the
  authenticated encryption of packets (\<open>xchacha20_djb_poly1305_encrypt\<close> and \<open>_decrypt\<close>) and the
  padding of messages (\<open>pad_query\<close>, \<open>unpad_response\<close>).

  The encryption is a canonical codec: decryption succeeds on nothing but the encryption of what it
  returns. The padding is a codec whose decoder accepts exactly a message, a marker and zeros. The
  certificate parser accepts exactly the signed layout.
\<close>

section \<open>Errors\<close>

datatype dns_error =
    Udp_Bind_Failed
  | Udp_Send_Failed
  | Udp_Recv_Failed
  | Udp_Timed_Out
  | Udp_Failed
  | Tcp_Timed_Out
  | Tcp_Connect_Failed
  | Tcp_Write_Failed
  | Tcp_Read_Failed
  | Private_Key_Failed
  | Public_Key_Failed
  | Agreement_Failed
  | No_Session
  | Dns_Entropy_Failed
  | Packet_Too_Short
  | Bad_Resolver_Magic
  | Nonce_Mismatch
  | Ciphertext_Too_Short
  | Poly1305_Failed
  | Bad_Padding
  | No_A_Record

section \<open>Certificates\<close>

record dnscrypt_cert =
  resolver_pk :: bytes
  cert_magic :: bytes
  serial :: u32
  ts_start :: u32
  cert_ts_end :: u32

text \<open>The checks and the fields of \<open>verify_cert\<close> before it reads the clock.\<close>

definition cert_fields :: "crypto_lib \<Rightarrow> bytes \<Rightarrow> bytes \<Rightarrow> dnscrypt_cert opt" where
  "cert_fields L cert provider_pk =
     (if length cert < 124 then none else
      and_then (slice cert 0 4) (\<lambda>magic. if magic \<noteq> lit ''DNSC'' then none else
      and_then (slice cert 4 6) (\<lambda>es. if es \<noteq> [0x00, 0x02] then none else
      and_then (slice cert 72 (length cert)) (\<lambda>signed.
      and_then (slice cert 8 72) (\<lambda>signature.
      if \<not> ed25519_verify L provider_pk signed signature then none else
      and_then (slice cert 72 104) (\<lambda>pk. and_then (copy_from_slice 32 pk) (\<lambda>resolver_pk.
      and_then (slice cert 104 112) (\<lambda>cm. and_then (copy_from_slice 8 cm) (\<lambda>client_magic.
      and_then (slice cert 112 116) (\<lambda>b0. and_then (try_array 4 () b0) (\<lambda>serial4.
      and_then (slice cert 116 120) (\<lambda>b1. and_then (try_array 4 () b1) (\<lambda>start4.
      and_then (slice cert 120 124) (\<lambda>b2. and_then (try_array 4 () b2) (\<lambda>end4.
      Ok \<lparr>resolver_pk = resolver_pk, cert_magic = client_magic, serial = u32_be serial4,
          ts_start = u32_be start4, cert_ts_end = u32_be end4\<rparr>)))))))))))))))"

text \<open>The validity period, which is only checked when the clock is past November 2023.\<close>

definition cert_current :: "u64 \<Rightarrow> dnscrypt_cert \<Rightarrow> bool" where
  "cert_current now cert \<longleftrightarrow>
     \<not> (now > 1700000000 \<and> (now < ucast (ts_start cert) \<or> now > ucast (cert_ts_end cert)))"

definition verify_cert :: "bytes \<Rightarrow> bytes \<Rightarrow> (unit, dnscrypt_cert) io" where
  "verify_cert cert provider_pk =
     bind (with_lib (\<lambda>L. pure (cert_fields L cert provider_pk))) (\<lambda>c.
     bind (call Read_Clock (\<lambda>E. clock_now (net E))) (\<lambda>now.
     if cert_current now c then return c else fail ()))"

section \<open>Encryption\<close>

definition run_hchacha20 :: "crypto_lib \<Rightarrow> bytes \<Rightarrow> bytes \<Rightarrow> bytes" where
  "run_hchacha20 L key input = array_bytes (hchacha20 L key input)"

text \<open>\<open>apply_keystream\<close> on a zeroed buffer of \<open>n\<close> bytes.\<close>

definition keystream :: "crypto_lib \<Rightarrow> bytes \<Rightarrow> bytes \<Rightarrow> nat \<Rightarrow> bytes" where
  "keystream L key nonce n = map (xchacha20_byte L key nonce) [0..<n]"

text \<open>The loop \<open>out[i] = text[i] ^ keystream[32 + i]\<close>.\<close>

definition xor_from_32 :: "bytes \<Rightarrow> bytes \<Rightarrow> bytes" where
  "xor_from_32 text ks = map (\<lambda>i. (text ! i) XOR (ks ! (32 + i))) [0..<length text]"

definition xchacha20_djb_poly1305_encrypt :: "crypto_lib \<Rightarrow> bytes \<Rightarrow> bytes \<Rightarrow> bytes \<Rightarrow> bytes" where
  "xchacha20_djb_poly1305_encrypt L key nonce plaintext =
     (let ks = keystream L key nonce (32 + length plaintext);
          poly_key = take 32 ks;
          ciphertext = xor_from_32 plaintext ks;
          tag = array_bytes (poly1305_tag L poly_key ciphertext)
      in tag @ ciphertext)"

definition xchacha20_djb_poly1305_decrypt ::
  "crypto_lib \<Rightarrow> bytes \<Rightarrow> bytes \<Rightarrow> bytes \<Rightarrow> (dns_error, bytes) result" where
  "xchacha20_djb_poly1305_decrypt L key nonce ciphertext_with_tag =
     (if length ciphertext_with_tag < 16 then Err Ciphertext_Too_Short else
      let tag = take 16 ciphertext_with_tag; ciphertext = drop 16 ciphertext_with_tag;
          ks = keystream L key nonce (32 + length ciphertext);
          poly_key = take 32 ks;
          computed_tag = array_bytes (poly1305_tag L poly_key ciphertext)
      in if computed_tag \<noteq> tag then Err Poly1305_Failed
         else Ok (xor_from_32 ciphertext ks))"

section \<open>Padding\<close>

definition pad_query :: "bytes \<Rightarrow> nat \<Rightarrow> bytes" where
  "pad_query query min_len =
     (let padded = query @ [0x80];
          target_len = (if length padded < min_len then min_len else length padded);
          target_len = (if target_len mod 64 \<noteq> 0 then (target_len div 64 + 1) * 64 else target_len)
      in resize target_len padded)"

text \<open>The loop that moves \<open>end\<close> down over trailing zeros.\<close>

fun strip_zeros :: "bytes \<Rightarrow> nat \<Rightarrow> nat" where
  "strip_zeros decrypted 0 = 0"
| "strip_zeros decrypted (Suc e) = (if decrypted ! e = 0x00 then strip_zeros decrypted e else Suc e)"

definition unpad_response :: "bytes \<Rightarrow> (dns_error, bytes) result" where
  "unpad_response decrypted =
     (let e = strip_zeros decrypted (length decrypted)
      in if e = 0 \<or> decrypted ! (e - 1) \<noteq> 0x80 then Err Bad_Padding
         else Ok (take (e - 1) decrypted))"

section \<open>The encryption is canonical\<close>

lemma length_xor [simp]: "length (xor_from_32 xs ks) = length xs"
  by (simp add: xor_from_32_def)

lemma xor_xor [simp]: "xor_from_32 (xor_from_32 xs ks) ks = xs"
  by (rule nth_equalityI) (simp_all add: xor_from_32_def xor.assoc)

lemma decrypt_encrypt:
  "xchacha20_djb_poly1305_decrypt L key nonce (xchacha20_djb_poly1305_encrypt L key nonce m) = Ok m"
  by (simp add: xchacha20_djb_poly1305_decrypt_def xchacha20_djb_poly1305_encrypt_def Let_def)

lemma encrypt_decrypt:
  assumes "xchacha20_djb_poly1305_decrypt L key nonce c = Ok m"
  shows "xchacha20_djb_poly1305_encrypt L key nonce m = c"
proof -
  let ?ks = "keystream L key nonce (32 + length (drop 16 c))"
  have m: "m = xor_from_32 (drop 16 c) ?ks"
    and tag: "array_bytes (poly1305_tag L (take 32 ?ks) (drop 16 c)) = take 16 c"
    using assms by (auto simp: xchacha20_djb_poly1305_decrypt_def Let_def split: if_splits)
  have "length m = length (drop 16 c)" by (simp add: m)
  then show ?thesis
    unfolding xchacha20_djb_poly1305_encrypt_def Let_def
    by (metis append_take_drop_id m tag xor_xor)
qed

interpretation aead: canonical_codec
  "xchacha20_djb_poly1305_encrypt L key nonce" "xchacha20_djb_poly1305_decrypt L key nonce" "\<lambda>_. True"
  for L key nonce
  by unfold_locales (simp_all add: decrypt_encrypt encrypt_decrypt)

lemma length_encrypt [simp]: "length (xchacha20_djb_poly1305_encrypt L key nonce m) = 16 + length m"
  by (simp add: xchacha20_djb_poly1305_encrypt_def Let_def)

lemma decrypt_no_panic [no_panic]: "xchacha20_djb_poly1305_decrypt L key nonce c \<noteq> Panic"
  by (simp add: xchacha20_djb_poly1305_decrypt_def Let_def)

section \<open>The padding\<close>

lemma strip_zeros_zeros:
  "strip_zeros (xs @ replicate n 0) (length xs + k) = strip_zeros (xs @ replicate n 0) (length xs)"
  if "k \<le> n"
  using that by (induction k) (simp_all add: nth_append)

lemma strip_zeros_marker:
  "strip_zeros (m @ 0x80 # replicate n 0) (length (m @ 0x80 # replicate n (0::u8))) = Suc (length m)"
proof -
  have "strip_zeros ((m @ [0x80]) @ replicate n 0) (length (m @ [0x80 :: u8]) + n) =
      strip_zeros ((m @ [0x80]) @ replicate n 0) (length (m @ [0x80 :: u8]))"
    by (rule strip_zeros_zeros) simp
  then show ?thesis by (simp add: nth_append)
qed

lemma unpad_marker: "unpad_response (m @ 0x80 # replicate n 0) = Ok m"
  unfolding unpad_response_def Let_def strip_zeros_marker by simp

lemma strip_zeros_le: "strip_zeros d e \<le> e"
  by (induction e) auto

lemma strip_zeros_above: "strip_zeros d e \<le> i \<Longrightarrow> i < e \<Longrightarrow> d ! i = 0"
  by (induction e) (auto split: if_splits simp: less_Suc_eq)

lemma unpad_shape:
  assumes "unpad_response d = Ok m"
  shows "d = m @ 0x80 # replicate (length d - Suc (length m)) 0"
proof -
  let ?e = "strip_zeros d (length d)"
  have e: "0 < ?e" "?e \<le> length d" "d ! (?e - 1) = 0x80" "m = take (?e - 1) d"
    using assms strip_zeros_le by (auto simp: unpad_response_def Let_def split: if_splits)
  have "d = take (?e - 1) d @ d ! (?e - 1) # drop ?e d"
    using e(1,2) id_take_nth_drop [of "?e - 1" d] by simp
  moreover have "drop ?e d = replicate (length d - ?e) 0"
    by (rule nth_equalityI) (simp_all add: strip_zeros_above [of d "length d"])
  moreover have "length m = ?e - 1" using e by simp
  ultimately show ?thesis using e by simp
qed

lemma pad_query_shape:
  "\<exists>n. pad_query q min_len = q @ 0x80 # replicate n 0 \<and>
     length (pad_query q min_len) mod 64 = 0 \<and> min_len \<le> length (pad_query q min_len)"
proof -
  define t where "t = (if length (q @ [0x80 :: u8]) < min_len then min_len else length (q @ [0x80 :: u8]))"
  define u where "u = (if t mod 64 \<noteq> 0 then (t div 64 + 1) * 64 else t)"
  have p: "pad_query q min_len = resize u (q @ [0x80])"
    unfolding u_def t_def by (simp only: pad_query_def Let_def)
  have t: "min_len \<le> t" "Suc (length q) \<le> t" by (auto simp: t_def)
  have "t \<le> u"
  proof -
    have "t \<le> (t div 64 + 1) * 64"
      by presburger
    then show ?thesis by (simp add: u_def)
  qed
  then show ?thesis
    using t by (auto simp: p resize_def u_def)
qed

interpretation padding: codec "\<lambda>q. pad_query q min_len" unpad_response "\<lambda>_. True" for min_len
proof
  fix q
  obtain n where "pad_query q min_len = q @ 0x80 # replicate n 0"
    using pad_query_shape by blast
  then show "unpad_response (pad_query q min_len) = Ok q"
    by (simp only: unpad_marker)
qed

lemma length_pad_query: "length q < 1024 \<Longrightarrow> length (pad_query q 1024) = 1024"
  by (cases "length q = 1023") (simp_all add: pad_query_def Let_def)

section \<open>The certificate layout\<close>

definition cert_bytes :: "bytes \<Rightarrow> bytes \<Rightarrow> dnscrypt_cert \<Rightarrow> bytes \<Rightarrow> bytes" where
  "cert_bytes minor signature c extensions =
     lit ''DNSC'' @ [0x00, 0x02] @ minor @ signature @ resolver_pk c @ cert_magic c @
     to_be 4 (unat (serial c)) @ to_be 4 (unat (ts_start c)) @ to_be 4 (unat (cert_ts_end c)) @ extensions"

definition cert_signed :: "dnscrypt_cert \<Rightarrow> bytes \<Rightarrow> bytes" where
  "cert_signed c extensions =
     resolver_pk c @ cert_magic c @ to_be 4 (unat (serial c)) @ to_be 4 (unat (ts_start c)) @
     to_be 4 (unat (cert_ts_end c)) @ extensions"

definition cert_evidence :: "crypto_lib \<Rightarrow> bytes \<Rightarrow> bytes \<Rightarrow> dnscrypt_cert \<Rightarrow> bool" where
  "cert_evidence L cert provider_pk c \<longleftrightarrow>
     (\<exists>minor signature extensions.
        cert = cert_bytes minor signature c extensions \<and> length minor = 2 \<and> length signature = 64 \<and>
        length (resolver_pk c) = 32 \<and> length (cert_magic c) = 8 \<and>
        ed25519_verify L provider_pk (cert_signed c extensions) signature)"

lemma to_be_u32_be: "length xs = 4 \<Longrightarrow> to_be 4 (unat (u32_be xs)) = xs"
  by (simp add: unat_u32_be to_be_be_nat)

lemma cert_fields_complete:
  assumes "cert_evidence L cert pk c"
  shows "cert_fields L cert pk = Ok c"
proof -
  obtain minor signature extensions where
    c: "cert = cert_bytes minor signature c extensions" "length minor = 2" "length signature = 64"
      "length (resolver_pk c) = 32" "length (cert_magic c) = 8"
      "ed25519_verify L pk (cert_signed c extensions) signature"
    using assms by (auto simp: cert_evidence_def)
  then show ?thesis
    by (simp add: cert_fields_def cert_bytes_def cert_signed_def slice_def copy_from_slice_def
        try_array_def)
qed

lemma prefix_of_length: "n \<le> length xs \<Longrightarrow> \<exists>a b. xs = a @ b \<and> length a = n"
  by (rule exI [of _ "take n xs"], rule exI [of _ "drop n xs"]) simp

lemma cert_fields_sound:
  assumes ok: "cert_fields L cert pk = Ok c"
  shows "cert_evidence L cert pk c"
proof -
  have len: "124 \<le> length cert"
    using ok by (auto simp: cert_fields_def split: if_splits)
  obtain magic r1 where c1: "cert = magic @ r1" "length magic = 4"
    using prefix_of_length [of 4 cert] len by auto
  obtain es r2 where c2: "r1 = es @ r2" "length es = 2"
    using prefix_of_length [of 2 r1] len c1 by auto
  obtain minor r3 where c3: "r2 = minor @ r3" "length minor = 2"
    using prefix_of_length [of 2 r2] len c1 c2 by auto
  obtain sgn r4 where c4: "r3 = sgn @ r4" "length sgn = 64"
    using prefix_of_length [of 64 r3] len c1 c2 c3 by auto
  obtain key r5 where c5: "r4 = key @ r5" "length key = 32"
    using prefix_of_length [of 32 r4] len c1 c2 c3 c4 by auto
  obtain cm r6 where c6: "r5 = cm @ r6" "length cm = 8"
    using prefix_of_length [of 8 r5] len c1 c2 c3 c4 c5 by auto
  obtain s1 r7 where c7: "r6 = s1 @ r7" "length s1 = 4"
    using prefix_of_length [of 4 r6] len c1 c2 c3 c4 c5 c6 by auto
  obtain s2 r8 where c8: "r7 = s2 @ r8" "length s2 = 4"
    using prefix_of_length [of 4 r7] len c1 c2 c3 c4 c5 c6 c7 by auto
  obtain s3 ext where c9: "r8 = s3 @ ext" "length s3 = 4"
    using prefix_of_length [of 4 r8] len c1 c2 c3 c4 c5 c6 c7 c8 by auto
  note pieces = c1(1) c2(1) c3(1) c4(1) c5(1) c6(1) c7(1) c8(1) c9(1)
  note widths = c1(2) c2(2) c3(2) c4(2) c5(2) c6(2) c7(2) c8(2) c9(2)
  have "magic = lit ''DNSC''" "es = [0, 2]" "ed25519_verify L pk r4 sgn"
    and c: "c = \<lparr>resolver_pk = key, cert_magic = cm, serial = u32_be s1, ts_start = u32_be s2,
      cert_ts_end = u32_be s3\<rparr>"
    using ok unfolding cert_fields_def
    by (simp_all add: pieces widths try_array_def split: if_splits)
  then show ?thesis
    unfolding cert_evidence_def
    by (intro exI [of _ minor] exI [of _ sgn] exI [of _ ext])
       (simp add: pieces widths cert_bytes_def cert_signed_def to_be_u32_be)
qed

lemma cert_fields_iff: "cert_fields L cert pk = Ok c \<longleftrightarrow> cert_evidence L cert pk c"
  using cert_fields_sound cert_fields_complete by blast

lemma cert_fields_no_panic [no_panic]: "cert_fields L cert pk \<noteq> Panic"
  by (auto simp: cert_fields_def and_then_eq_Panic try_array_def)

lemma verify_cert_Ok_iff:
  "verify_cert cert pk E t = (Ok c, t') \<longleftrightarrow>
     cert_evidence (lib E) cert pk c \<and> cert_current (clock_now (net E) t) c \<and> t' = Read_Clock # t"
  by (auto simp: verify_cert_def bind_Ok_iff cert_fields_iff)

lemma verify_cert_no_panic [no_panic]: "fst (verify_cert cert pk E t) \<noteq> Panic"
  using cert_fields_no_panic [of "lib E" cert pk]
  by (cases "cert_fields (lib E) cert pk") (simp_all add: verify_cert_def bind_eq)

section \<open>Properties\<close>

text \<open>
  C20. A certificate is accepted exactly when it has the layout of version 2 and its signed part
  verifies under the provider's key, and the clock is not outside its validity period once it is past
  November 2023; its fields are those of the signed part.
\<close>

theorem certificate_accepted_exactly:
  "(\<exists>t'. verify_cert cert pk E t = (Ok c, t')) \<longleftrightarrow>
     cert_evidence (lib E) cert pk c \<and>
     (clock_now (net E) t \<le> 1700000000 \<or>
      ucast (ts_start c) \<le> clock_now (net E) t \<and> clock_now (net E) t \<le> ucast (cert_ts_end c))"
  by (auto simp: verify_cert_Ok_iff cert_current_def not_less)

text \<open>
  C21. The packet encryption is authenticated and invertible: decryption returns a message exactly
  when the packet is the encryption of that message under the key and nonce; every other packet is
  refused.
\<close>

theorem decrypts_exactly_encryptions:
  "xchacha20_djb_poly1305_decrypt L key nonce c = Ok m \<longleftrightarrow>
     c = xchacha20_djb_poly1305_encrypt L key nonce m"
  using aead.dec_iff [of L key nonce c m] by auto

text \<open>
  C22. Unpadding returns a message exactly when the input is the message, the marker 0x80 and zeros;
  padding produces such an input, of a length that is a multiple of 64 and at least the minimum.
\<close>

theorem padding_exact:
  "(unpad_response d = Ok m \<longleftrightarrow> (\<exists>n. d = m @ 0x80 # replicate n 0)) \<and>
   unpad_response (pad_query q min_len) = Ok q \<and>
   length (pad_query q min_len) mod 64 = 0 \<and> min_len \<le> length (pad_query q min_len)"
proof (intro conjI)
  show "unpad_response d = Ok m \<longleftrightarrow> (\<exists>n. d = m @ 0x80 # replicate n 0)"
    using unpad_shape unpad_marker by blast
  show "unpad_response (pad_query q min_len) = Ok q"
    by (rule padding.dec_enc) simp
qed (use pad_query_shape in blast)+

end
