(* ===== verification/Dnscrypt.thy ===== *)
theory Dnscrypt
  imports Dnscrypt_Codec Dns_Wire Http_Date Config
begin

text \<open>
  The DNSCrypt client of \<open>src/dns.rs\<close>: transport over UDP and TCP (\<open>send_dns_query\<close>), the choice
  of a certificate and the key agreement (\<open>establish_dnscrypt_session\<close>), the session cache of
  \<open>CustomDnscryptResolver\<close>, the resolution of a name over a session, and the fallback time source
  \<open>query_mullvad_secure_date\<close>.

  The lemmas show that a session rests on a certificate signed by a hard-coded provider, the one of
  highest serial among the verified ones, that an expired session is not reused, that an address is
  taken only from a packet encrypted under the session key for the nonce of the query, and that the
  answer of an honest resolver is taken.
\<close>

section \<open>Transport\<close>

text \<open>
  \<open>send_dns_query_udp\<close>: at most two attempts, with \<open>left\<close> more to go; an error of the last one is
  returned.
\<close>

fun udp_attempts :: "socket_addr \<Rightarrow> bytes \<Rightarrow> nat \<Rightarrow> (dns_error, bytes) io" where
  "udp_attempts addr query 0 = fail Udp_Failed"
| "udp_attempts addr query (Suc left) =
     bind (call (Udp_Send addr query) (\<lambda>E. udp_send_ok (net E))) (\<lambda>sent.
     if \<not> sent then
       if left = 0 then fail Udp_Send_Failed
       else bind (emit (Sleep_Ms 200)) (\<lambda>_. udp_attempts addr query left)
     else
     bind (call (Udp_Recv 4096 3000) (\<lambda>E. udp_recv (net E))) (\<lambda>answer.
     case answer of
       Received data \<Rightarrow> return (take 4096 data)
     | Recv_Failed \<Rightarrow>
         if left = 0 then fail Udp_Recv_Failed
         else bind (emit (Sleep_Ms 200)) (\<lambda>_. udp_attempts addr query left)
     | Recv_Timeout \<Rightarrow>
         if left = 0 then fail Udp_Timed_Out
         else bind (emit (Sleep_Ms 200)) (\<lambda>_. udp_attempts addr query left)))"

definition send_dns_query_udp :: "socket_addr \<Rightarrow> bytes \<Rightarrow> (dns_error, bytes) io" where
  "send_dns_query_udp addr query =
     bind (call Udp_Bind (\<lambda>E. udp_bind_ok (net E))) (\<lambda>bound.
     bind (require Udp_Bind_Failed bound) (\<lambda>_. udp_attempts addr query 2))"

definition tcp_write_all :: "bytes \<Rightarrow> (dns_error, unit) io" where
  "tcp_write_all xs =
     bind (call (Tcp_Write xs) (\<lambda>E. tcp_write_ok (net E))) (\<lambda>ok. require Tcp_Write_Failed ok)"

definition tcp_read_exact :: "nat \<Rightarrow> (dns_error, bytes) io" where
  "tcp_read_exact n =
     bind (call (Tcp_Read n)
       (\<lambda>E t. if tcp_read_ok (net E) t then Some (map (tcp_byte (net E) t) [0..<n]) else None))
     (\<lambda>r. pure (from_option Tcp_Read_Failed r))"

text \<open>The length prefix is \<open>query.len() as u16\<close>.\<close>

definition send_dns_query_tcp :: "socket_addr \<Rightarrow> bytes \<Rightarrow> (dns_error, bytes) io" where
  "send_dns_query_tcp addr query =
     bind (call (Tcp_Connect addr 5000) (\<lambda>E. tcp_connect (net E))) (\<lambda>c.
     case c of
       Connect_Timeout \<Rightarrow> fail Tcp_Timed_Out
     | Connect_Failed \<Rightarrow> fail Tcp_Connect_Failed
     | Connected \<Rightarrow>
         bind (tcp_write_all (to_be 2 (unat (of_nat (length query) :: u16)))) (\<lambda>_.
         bind (tcp_write_all query) (\<lambda>_.
         bind (tcp_read_exact 2) (\<lambda>len_buf.
         tcp_read_exact (unat (u16_be len_buf))))))"

definition resolver_magic :: bytes where
  "resolver_magic = [0x72, 0x36, 0x66, 0x6e, 0x76, 0x57, 0x6a, 0x38]"

text \<open>A plain DNS response whose truncation bit is set; a DNSCrypt packet has no such bit.\<close>

definition truncated :: "bytes \<Rightarrow> bool" where
  "truncated resp \<longleftrightarrow>
     \<not> (length resp \<ge> 8 \<and> take 8 resp = resolver_magic) \<and> length resp \<ge> 3 \<and> (resp ! 2) AND 0x02 \<noteq> 0"

definition send_dns_query :: "socket_addr \<Rightarrow> bytes \<Rightarrow> bool \<Rightarrow> (dns_error, bytes) io" where
  "send_dns_query addr query force_tcp =
     (if force_tcp then send_dns_query_tcp addr query
      else on_result (send_dns_query_udp addr query)
        (\<lambda>e. send_dns_query_tcp addr query)
        (\<lambda>resp. if truncated resp then send_dns_query_tcp addr query else return resp))"

section \<open>Sessions\<close>

record hardcoded_resolver =
  hr_ip :: socket_addr
  hr_provider_name :: bytes
  hr_provider_pk :: bytes

record client_state =
  cs_resolver_ip :: socket_addr
  cs_client_pk :: bytes
  cs_client_magic :: bytes
  cs_shared_key :: bytes
  cs_ts_end :: u32

definition quad9_pk :: bytes where
  "quad9_pk =
     [0x67, 0xc8, 0x47, 0xb8, 0xc8, 0x75, 0x8c, 0xd1, 0x20, 0x24, 0x55, 0x43, 0xbe, 0x75, 0x67, 0x46,
      0xdf, 0x34, 0xdf, 0x1d, 0x84, 0xc0, 0x0b, 0x8c, 0x47, 0x03, 0x68, 0xdf, 0x82, 0x1d, 0x86, 0x3e]"

definition HARDCODED_RESOLVERS :: "hardcoded_resolver list" where
  "HARDCODED_RESOLVERS =
     [\<lparr>hr_ip = (V4 9 9 9 9, 8443), hr_provider_name = lit ''2.dnscrypt-cert.quad9.net'',
       hr_provider_pk = quad9_pk\<rparr>,
      \<lparr>hr_ip = (V4 149 112 112 112, 8443), hr_provider_name = lit ''2.dnscrypt-cert.quad9.net'',
       hr_provider_pk = quad9_pk\<rparr>,
      \<lparr>hr_ip = (V4 149 112 112 9, 8443), hr_provider_name = lit ''2.dnscrypt-cert.quad9.net'',
       hr_provider_pk = quad9_pk\<rparr>]"

text \<open>The loop over the raw certificates: the first of the highest serial that verifies.\<close>

fun best_cert :: "bytes \<Rightarrow> dnscrypt_cert option \<Rightarrow> bytes list \<Rightarrow> ('e, dnscrypt_cert option) io" where
  "best_cert provider_pk best [] = return best"
| "best_cert provider_pk best (cert_raw # certs) =
     on_result (verify_cert cert_raw provider_pk)
       (\<lambda>_. best_cert provider_pk best certs)
       (\<lambda>cert. best_cert provider_pk
          (case best of
             None \<Rightarrow> Some cert
           | Some current_best \<Rightarrow> if serial cert > serial current_best then Some cert else best) certs)"

text \<open>The closure of \<open>agree_ephemeral\<close> refuses a secret that is not 32 bytes long.\<close>

definition agree :: "bytes \<Rightarrow> bytes \<Rightarrow> (dns_error, bytes) io" where
  "agree client_sk peer_pk =
     with_lib (\<lambda>L. case x25519_agree L client_sk peer_pk of
         None \<Rightarrow> fail Agreement_Failed
       | Some secret \<Rightarrow> if length secret = 32 then return secret else fail Agreement_Failed)"

definition key_exchange :: "hardcoded_resolver \<Rightarrow> dnscrypt_cert \<Rightarrow> (dns_error, client_state) io" where
  "key_exchange resolver cert =
     bind (call Generate_X25519 (\<lambda>E. x25519_generate (net E))) (\<lambda>generated.
     bind (pure (from_option Private_Key_Failed generated)) (\<lambda>client_sk.
     bind (with_lib (\<lambda>L. pure (from_option Public_Key_Failed (x25519_public_key L client_sk)))) (\<lambda>client_pk.
     bind (agree client_sk (resolver_pk cert)) (\<lambda>raw_shared_secret.
     with_lib (\<lambda>L.
     return \<lparr>cs_resolver_ip = hr_ip resolver, cs_client_pk = array_bytes client_pk,
       cs_client_magic = cert_magic cert,
       cs_shared_key = run_hchacha20 L raw_shared_secret (replicate 16 0),
       cs_ts_end = cert_ts_end cert\<rparr>)))))"

text \<open>The loop over the resolvers; a failed key exchange ends it, a failed query goes on.\<close>

fun try_resolvers :: "hardcoded_resolver list \<Rightarrow> (dns_error, client_state) io" where
  "try_resolvers [] = fail No_Session"
| "try_resolvers (resolver # resolvers) =
     on_result
       (send_dns_query (hr_ip resolver) (build_txt_record_query (hr_provider_name resolver)) False)
       (\<lambda>e. try_resolvers resolvers)
       (\<lambda>resp_data.
          bind (pure (map_err (\<lambda>_. No_Session) (parse_txt_response resp_data))) (\<lambda>certs_raw.
          bind (best_cert (hr_provider_pk resolver) None certs_raw) (\<lambda>best.
          case best of
            Some cert \<Rightarrow> key_exchange resolver cert
          | None \<Rightarrow> try_resolvers resolvers)))"

definition establish_dnscrypt_session :: "(dns_error, client_state) io" where
  "establish_dnscrypt_session = try_resolvers HARDCODED_RESOLVERS"

text \<open>
  \<open>get_or_establish_session\<close>: the content of the mutex is passed in and, when a session is
  returned, passed out; after an error it is unchanged.
\<close>

definition get_or_establish_session ::
  "client_state option \<Rightarrow> (dns_error, client_state \<times> client_state option) io" where
  "get_or_establish_session cache =
     (case cache of
        Some session \<Rightarrow>
          bind (call Read_Clock (\<lambda>E. clock_now (net E))) (\<lambda>now.
          if now < ucast (cs_ts_end session) then return (session, cache)
          else bind establish_dnscrypt_session (\<lambda>new_session. return (new_session, Some new_session)))
      | None \<Rightarrow>
          bind establish_dnscrypt_session (\<lambda>new_session. return (new_session, Some new_session)))"

section \<open>Resolving a name\<close>

definition request_packet :: "crypto_lib \<Rightarrow> client_state \<Rightarrow> bytes \<Rightarrow> bytes \<Rightarrow> bytes" where
  "request_packet L session client_nonce domain =
     cs_client_magic session @ cs_client_pk session @ client_nonce @
     xchacha20_djb_poly1305_encrypt L (cs_shared_key session) (client_nonce @ replicate 12 0)
       (pad_query (build_a_record_query domain) 1024)"

definition read_response_packet ::
  "crypto_lib \<Rightarrow> client_state \<Rightarrow> bytes \<Rightarrow> bytes \<Rightarrow> (dns_error, ip_addr) result" where
  "read_response_packet L session client_nonce response_packet =
     (if length response_packet < 32 then Err Packet_Too_Short else
      and_then (slice response_packet 0 8) (\<lambda>magic.
      if magic \<noteq> resolver_magic then Err Bad_Resolver_Magic else
      and_then (slice response_packet 8 32) (\<lambda>r.
      and_then (copy_from_slice 24 r) (\<lambda>resp_nonce.
      and_then (slice resp_nonce 0 12) (\<lambda>echoed.
      if echoed \<noteq> client_nonce then Err Nonce_Mismatch else
      and_then (slice response_packet 32 (length response_packet)) (\<lambda>encrypted_response.
      and_then (xchacha20_djb_poly1305_decrypt L (cs_shared_key session) resp_nonce encrypted_response)
        (\<lambda>decrypted.
      and_then (unpad_response decrypted) (\<lambda>unpadded.
      ok_or No_A_Record (parse_dns_response unpadded)))))))))"

definition resolve_domain_via_dnscrypt_session ::
  "client_state \<Rightarrow> bytes \<Rightarrow> (dns_error, ip_addr) io" where
  "resolve_domain_via_dnscrypt_session session domain =
     bind (rand_fill Dns_Entropy_Failed 12) (\<lambda>client_nonce.
     with_lib (\<lambda>L.
     bind (send_dns_query (cs_resolver_ip session) (request_packet L session client_nonce domain) False)
       (\<lambda>response_packet. pure (read_response_packet L session client_nonce response_packet))))"

definition resolve_domain_via_dnscrypt :: "bytes \<Rightarrow> (dns_error, ip_addr \<times> u64 option) io" where
  "resolve_domain_via_dnscrypt domain =
     bind establish_dnscrypt_session (\<lambda>session.
     bind (resolve_domain_via_dnscrypt_session session domain) (\<lambda>ip. return (ip, None)))"

text \<open>
  \<open>Resolve::resolve\<close> for the HTTP client: the address with port 0, or the error; the cache keeps a
  new session also when the resolution over it fails.
\<close>

definition resolve_name ::
  "client_state option \<Rightarrow> bytes \<Rightarrow> ('e, (dns_error, socket_addr) result \<times> client_state option) io" where
  "resolve_name cache domain =
     on_result (get_or_establish_session cache)
       (\<lambda>e. return (Err e, cache))
       (\<lambda>(session, cache').
          on_result (resolve_domain_via_dnscrypt_session session domain)
            (\<lambda>e. return (Err e, cache'))
            (\<lambda>ip. return (Ok (ip, 0), cache')))"

section \<open>The fallback time source\<close>

definition mullvad_host :: bytes where
  "mullvad_host = lit ''am.i.mullvad.net''"

text \<open>\<open>HeaderValue::to_str\<close>: visible ASCII, spaces and tabs.\<close>

definition header_text :: "bytes \<Rightarrow> bytes option" where
  "header_text v = (if list_all (\<lambda>x. x = 0x09 \<or> 0x20 \<le> x \<and> x < 0x7F) v then Some v else None)"

text \<open>
  The \<open>Date\<close> header of the answer to a request to the host pinned to an address; \<open>None\<close> of the
  environment is a failed request, \<open>Some None\<close> an answer without the header.
\<close>

definition query_mullvad_secure_date :: "tls_config \<Rightarrow> ('e, u64 option) io" where
  "query_mullvad_secure_date tls =
     bind (attempt (resolve_domain_via_dnscrypt mullvad_host)) (\<lambda>r.
     let ip = (case r of Ok (ip, _) \<Rightarrow> ip | _ \<Rightarrow> V4 45 83 223 233) in
     bind (call (Build_Http_Client tls 5 None) (\<lambda>E. client_build_ok (net E))) (\<lambda>built.
     if \<not> built then return None else
     bind (call (Http_Get_Pinned (lit ''https://am.i.mullvad.net/'') mullvad_host (ip, 443))
       (\<lambda>E. http_date (net E))) (\<lambda>res.
     return (Option.bind (Option.bind (Option.bind res (\<lambda>date. date)) header_text) parse_http_date))))"

section \<open>The client never ends the process\<close>

lemma rand_fill_safe [safe_intro]: "safe E (rand_fill e n)"
  unfolding rand_fill_def by (intro safe_intro) simp

lemma udp_attempts_safe [safe_intro]: "safe E (udp_attempts addr query n)"
proof (induction n)
  case (Suc n)
  then show ?case
    unfolding udp_attempts.simps by (intro safe_intro) simp_all
qed (simp add: safe_def)

lemma send_dns_query_udp_safe [safe_intro]: "safe E (send_dns_query_udp addr query)"
  unfolding send_dns_query_udp_def by (intro safe_intro)

lemma tcp_write_all_safe [safe_intro]: "safe E (tcp_write_all xs)"
  unfolding tcp_write_all_def by (intro safe_intro)

lemma tcp_read_exact_safe [safe_intro]: "safe E (tcp_read_exact n)"
  unfolding tcp_read_exact_def by (intro safe_intro) simp

lemma send_dns_query_tcp_safe [safe_intro]: "safe E (send_dns_query_tcp addr query)"
  unfolding send_dns_query_tcp_def
  by (intro safe_intro) simp_all

lemma send_dns_query_safe [safe_intro]: "safe E (send_dns_query addr query force_tcp)"
  unfolding send_dns_query_def by (intro safe_intro) simp_all

lemma verify_cert_safe [safe_intro]: "safe E (verify_cert cert pk)"
  by (simp add: safe_def verify_cert_no_panic)

lemma best_cert_safe [safe_intro]: "safe E (best_cert pk best certs)"
proof (induction certs arbitrary: best)
  case (Cons cert_raw certs)
  then show ?case unfolding best_cert.simps by (intro safe_intro)
qed (simp add: safe_def)

lemma parse_response_packet_no_panic [no_panic]:
  "read_response_packet L s nonce packet \<noteq> Panic"
  by (auto simp: read_response_packet_def and_then_eq_Panic decrypt_no_panic unpad_response_def Let_def
      parse_dns_no_panic)

lemma resolve_session_safe [safe_intro]: "safe E (resolve_domain_via_dnscrypt_session s domain)"
  unfolding resolve_domain_via_dnscrypt_session_def
  by (intro safe_intro) (simp add: parse_response_packet_no_panic)

lemma key_exchange_safe [safe_intro]: "safe E (key_exchange resolver cert)"
  unfolding key_exchange_def agree_def by (intro safe_intro) simp_all

lemma try_resolvers_safe [safe_intro]: "safe E (try_resolvers resolvers)"
proof (induction resolvers)
  case (Cons r rs)
  then show ?case
    unfolding try_resolvers.simps by (intro safe_intro) (simp_all add: parse_txt_no_panic)
qed (simp add: safe_def)

lemma establish_safe [safe_intro]: "safe E establish_dnscrypt_session"
  unfolding establish_dnscrypt_session_def by (rule safe_intro)

lemma get_session_safe [safe_intro]: "safe E (get_or_establish_session cache)"
  unfolding get_or_establish_session_def by (intro safe_intro) simp_all

lemma resolve_domain_safe [safe_intro]: "safe E (resolve_domain_via_dnscrypt domain)"
  unfolding resolve_domain_via_dnscrypt_def by (intro safe_intro) simp_all

lemma attempt_safe [safe_intro]: "safe E m \<Longrightarrow> safe E (attempt m)"
  unfolding attempt_def by (intro safe_intro) simp_all

lemma query_mullvad_safe [safe_intro]: "safe E (query_mullvad_secure_date tls)"
  unfolding query_mullvad_secure_date_def Let_def by (intro safe_intro) simp_all

lemma resolve_name_returns:
  "\<exists>r cache' t'. resolve_name cache domain E t = (Ok (r, cache'), t')"
  using safeD [OF get_session_safe [of E cache]] safeD [OF resolve_session_safe [of E]]
  by (auto simp: resolve_name_def on_result_eq split: prod.splits result.splits) blast

section \<open>Certificates and sessions\<close>

text \<open>
  A session that rests on a certificate of a hard-coded provider: its magic and expiry are those of
  the certificate, and its key comes from an agreement with the certified resolver key.
\<close>

definition session_ok :: "crypto_lib \<Rightarrow> client_state \<Rightarrow> bool" where
  "session_ok L s \<longleftrightarrow>
     (\<exists>resolver\<in>set HARDCODED_RESOLVERS. \<exists>raw cert sk pk secret.
        cert_evidence L raw (hr_provider_pk resolver) cert \<and>
        x25519_public_key L sk = Some pk \<and> x25519_agree L sk (resolver_pk cert) = Some secret \<and>
        length secret = 32 \<and>
        s = \<lparr>cs_resolver_ip = hr_ip resolver, cs_client_pk = array_bytes pk,
             cs_client_magic = cert_magic cert,
             cs_shared_key = run_hchacha20 L secret (replicate 16 0),
             cs_ts_end = cert_ts_end cert\<rparr>)"

lemma best_cert_evidence:
  assumes "best_cert pk best raws E t = (Ok (Some c) :: ('e, dnscrypt_cert option) result, t')"
  shows "best = Some c \<or> (\<exists>raw\<in>set raws. cert_evidence (lib E) raw pk c)"
  using assms
proof (induction raws arbitrary: best t)
  case (Cons raw raws)
  from Cons.prems show ?case
  proof (cases "fst (verify_cert raw pk E t)")
    case (Ok x)
    then obtain u where v: "verify_cert raw pk E t = (Ok x, u)" by (metis surjective_pairing)
    then have e: "cert_evidence (lib E) raw pk x" by (simp add: verify_cert_Ok_iff)
    from Cons.prems v Cons.IH e show ?thesis
      by (fastforce simp: on_result_eq split: option.splits if_splits)
  next
    case (Err e)
    then obtain u where v: "verify_cert raw pk E t = (Err e, u)" by (metis surjective_pairing)
    from Cons.prems v Cons.IH show ?thesis
      by (fastforce simp: on_result_eq)
  qed (simp add: verify_cert_no_panic)
qed simp

lemma best_cert_max:
  assumes "best_cert pk best raws E t = (Ok (Some c) :: ('e, dnscrypt_cert option) result, t')"
  shows "(\<forall>b. best = Some b \<longrightarrow> serial b \<le> serial c) \<and>
    (\<forall>raw\<in>set raws. \<forall>x. cert_evidence (lib E) raw pk x \<longrightarrow>
       (\<forall>u. cert_current (clock_now (net E) u) x) \<longrightarrow> serial x \<le> serial c)"
  using assms
proof (induction raws arbitrary: best t)
  case (Cons raw raws)
  show ?case
  proof (cases "fst (verify_cert raw pk E t)")
    case (Ok x)
    then obtain u where v: "verify_cert raw pk E t = (Ok x, u)" by (metis surjective_pairing)
    then have e: "cert_evidence (lib E) raw pk x" by (simp add: verify_cert_Ok_iff)
    have only: "y = x" if "cert_evidence (lib E) raw pk y" for y
      using that e cert_fields_iff by (metis result.inject(1))
    let ?b = "case best of None \<Rightarrow> Some x
        | Some b \<Rightarrow> if serial x > serial b then Some x else best"
    have "best_cert pk ?b raws E u = (Ok (Some c) :: ('e, dnscrypt_cert option) result, t')"
      using Cons.prems v by (simp add: on_result_eq)
    from Cons.IH [OF this] have rest: "\<forall>b. ?b = Some b \<longrightarrow> serial b \<le> serial c"
      "\<forall>raw\<in>set raws. \<forall>x. cert_evidence (lib E) raw pk x \<longrightarrow>
         (\<forall>u. cert_current (clock_now (net E) u) x) \<longrightarrow> serial x \<le> serial c" by auto
    have "serial x \<le> serial c \<and> (\<forall>b. best = Some b \<longrightarrow> serial b \<le> serial c)"
      using rest(1) by (auto split: option.splits if_splits)
    then show ?thesis using rest(2) only by auto
  next
    case (Err err)
    then obtain u where v: "verify_cert raw pk E t = (Err err, u)" by (metis surjective_pairing)
    have none: "\<not> (\<forall>u. cert_current (clock_now (net E) u) x)" if "cert_evidence (lib E) raw pk x" for x
      using that v verify_cert_Ok_iff [of raw pk E t x "Read_Clock # t"] by auto
    have "best_cert pk best raws E u = (Ok (Some c) :: ('e, dnscrypt_cert option) result, t')"
      using Cons.prems v by (simp add: on_result_eq)
    from Cons.IH [OF this] none show ?thesis by auto
  qed (simp add: verify_cert_no_panic)
qed simp

lemma key_exchange_session:
  assumes "key_exchange resolver cert E t = (Ok s, t')"
    and "resolver \<in> set HARDCODED_RESOLVERS" and "cert_evidence (lib E) raw (hr_provider_pk resolver) cert"
  shows "session_ok (lib E) s"
proof -
  obtain sk pk secret where "x25519_public_key (lib E) sk = Some pk"
      "x25519_agree (lib E) sk (resolver_pk cert) = Some secret" "length secret = 32"
      "s = \<lparr>cs_resolver_ip = hr_ip resolver, cs_client_pk = array_bytes pk,
        cs_client_magic = cert_magic cert,
        cs_shared_key = run_hchacha20 (lib E) secret (replicate 16 0), cs_ts_end = cert_ts_end cert\<rparr>"
    using assms(1) by (auto simp: key_exchange_def bind_Ok_iff agree_def split: option.splits if_splits)
  then show ?thesis
    using assms(2,3) unfolding session_ok_def by blast
qed

lemma try_resolvers_session:
  assumes "try_resolvers resolvers E t = (Ok s, t')" and "set resolvers \<subseteq> set HARDCODED_RESOLVERS"
  shows "session_ok (lib E) s"
  using assms
proof (induction resolvers arbitrary: t)
  case (Cons r rs)
  have r: "r \<in> set HARDCODED_RESOLVERS" and rs: "set rs \<subseteq> set HARDCODED_RESOLVERS"
    using Cons.prems(2) by auto
  note IH = Cons.IH [OF _ rs]
  from Cons.prems(1) show ?case
    by (auto simp: on_result_Ok_iff bind_Ok_iff split: option.splits
        dest!: IH best_cert_evidence intro: key_exchange_session [OF _ r])
qed simp

lemma establish_session:
  "establish_dnscrypt_session E t = (Ok s, t') \<Longrightarrow> session_ok (lib E) s"
  unfolding establish_dnscrypt_session_def by (erule try_resolvers_session) simp

section \<open>Packets\<close>

text \<open>The packet of a resolver for a message: magic, both nonces and the encrypted, padded message.\<close>

definition response_packet :: "crypto_lib \<Rightarrow> client_state \<Rightarrow> bytes \<Rightarrow> bytes \<Rightarrow> bytes \<Rightarrow> bytes" where
  "response_packet L s client_nonce server_nonce padded =
     resolver_magic @ client_nonce @ server_nonce @
     xchacha20_djb_poly1305_encrypt L (cs_shared_key s) (client_nonce @ server_nonce) padded"

lemma length_resolver_magic [simp]: "length resolver_magic = 8"
  by (simp add: resolver_magic_def)

lemma read_response_packet_complete:
  assumes "length nonce = 12" and "length rest = 12" and "parse_dns_response m = Ok ip"
  shows "read_response_packet L s nonce (response_packet L s nonce rest (m @ 0x80 # replicate n 0)) = Ok ip"
  using assms
  by (simp add: read_response_packet_def response_packet_def slice_def copy_from_slice_def
      resolver_magic_def decrypt_encrypt unpad_marker)

lemma read_response_packet_sound:
  assumes nonce: "length nonce = 12" and ok: "read_response_packet L s nonce p = Ok ip"
  shows "\<exists>rest m n. length rest = 12 \<and> p = response_packet L s nonce rest (m @ 0x80 # replicate n 0) \<and>
    parse_dns_response m = Ok ip"
proof -
  have len: "32 \<le> length p"
    using ok by (auto simp: read_response_packet_def split: if_splits)
  obtain magic r1 where p1: "p = magic @ r1" "length magic = 8"
    using prefix_of_length [of 8 p] len by auto
  obtain echoed r2 where p2: "r1 = echoed @ r2" "length echoed = 12"
    using prefix_of_length [of 12 r1] len p1 by auto
  obtain rest c where p3: "r2 = rest @ c" "length rest = 12"
    using prefix_of_length [of 12 r2] len p1 p2 by auto
  have p: "p = magic @ echoed @ rest @ c" by (simp add: p1 p2 p3)
  have "magic = resolver_magic \<and> echoed = nonce \<and>
      (\<exists>d m. xchacha20_djb_poly1305_decrypt L (cs_shared_key s) (nonce @ rest) c = Ok d \<and>
        unpad_response d = Ok m \<and> parse_dns_response m = Ok ip)"
    using ok unfolding read_response_packet_def p
    by (simp add: p1(2) p2(2) p3(2) nonce split: if_splits)
  then obtain d m where d: "magic = resolver_magic" "echoed = nonce"
      "xchacha20_djb_poly1305_decrypt L (cs_shared_key s) (nonce @ rest) c = Ok d"
      "unpad_response d = Ok m" "parse_dns_response m = Ok ip"
    by blast
  have "c = xchacha20_djb_poly1305_encrypt L (cs_shared_key s) (nonce @ rest) d"
    using d(3) encrypt_decrypt by metis
  then have "p = response_packet L s nonce rest d"
    by (simp add: p d(1,2) response_packet_def)
  then show ?thesis
    using d(4,5) p3(2) unpad_shape [OF d(4)] by metis
qed

lemma resolver_magic_not_truncated: "\<not> truncated (response_packet L s nonce rest padded)"
  by (simp add: truncated_def response_packet_def resolver_magic_def)

text \<open>A first attempt over UDP that is lost, and the trace after it.\<close>

definition udp_loses :: "env \<Rightarrow> socket_addr \<Rightarrow> bytes \<Rightarrow> trace \<Rightarrow> trace \<Rightarrow> bool" where
  "udp_loses E addr query t t' \<longleftrightarrow>
     (\<not> udp_send_ok (net E) t \<and> t' = Sleep_Ms 200 # Udp_Send addr query # t) \<or>
     (udp_send_ok (net E) t \<and> t' = Sleep_Ms 200 # Udp_Recv 4096 3000 # Udp_Send addr query # t \<and>
      (udp_recv (net E) (Udp_Send addr query # t) = Recv_Failed \<or>
       udp_recv (net E) (Udp_Send addr query # t) = Recv_Timeout))"

definition udp_answered :: "env \<Rightarrow> socket_addr \<Rightarrow> bytes \<Rightarrow> trace \<Rightarrow> bytes \<Rightarrow> bool" where
  "udp_answered E addr query t data \<longleftrightarrow>
     delivers E addr query t data \<or> (\<exists>t'. udp_loses E addr query t t' \<and> delivers E addr query t' data)"

lemma udp_attempts_delivers:
  "delivers E addr query t data \<Longrightarrow> fst (udp_attempts addr query (Suc n) E t) = Ok (take 4096 data)"
  by (simp add: delivers_def)

lemma udp_attempts_loses:
  "udp_loses E addr query t t' \<Longrightarrow>
     udp_attempts addr query (Suc (Suc n)) E t = udp_attempts addr query (Suc n) E t'"
  unfolding udp_attempts.simps(2) [of addr query "Suc n"] by (auto simp: udp_loses_def)

lemma send_dns_query_answered:
  assumes "udp_bind_ok (net E) t" and "udp_answered E addr query (Udp_Bind # t) data"
    and "\<not> truncated data" and "length data \<le> 4096"
  shows "\<exists>t'. send_dns_query addr query False E t = (Ok data, t')"
proof -
  have "fst (udp_attempts addr query 2 E (Udp_Bind # t)) = Ok data"
    using assms(2,4) udp_attempts_delivers [of E addr query] udp_attempts_loses [of E addr query]
    unfolding udp_answered_def numeral_2_eq_2 by (metis take_all_iff)
  then obtain t' where "udp_attempts addr query 2 E (Udp_Bind # t) = (Ok data, t')"
    by (metis surjective_pairing)
  then have "send_dns_query_udp addr query E t = (Ok data, t')"
    using assms(1) by (simp add: send_dns_query_udp_def)
  then show ?thesis
    using assms(3) by (simp add: send_dns_query_def on_result_eq)
qed

definition query_nonce :: "env \<Rightarrow> trace \<Rightarrow> bytes" where
  "query_nonce E t = map (rand_byte (net E) t) [0..<12]"

lemma length_query_nonce [simp]: "length (query_nonce E t) = 12"
  by (simp add: query_nonce_def)

lemma resolve_session_Ok_iff:
  "resolve_domain_via_dnscrypt_session s domain E t = (Ok ip, t') \<longleftrightarrow>
     rand_ok (net E) t \<and>
     (\<exists>packet. send_dns_query (cs_resolver_ip s) (request_packet (lib E) s (query_nonce E t) domain) False
         E (Rand_Fill 12 # t) = (Ok packet, t') \<and>
       read_response_packet (lib E) s (query_nonce E t) packet = Ok ip)"
  by (auto simp: resolve_domain_via_dnscrypt_session_def bind_Ok_iff rand_fill_eq query_nonce_def)

lemma length_push_labels: "length (push_labels (split_byte c s)) = Suc (length s)"
proof (induction s)
  case (Cons x xs)
  obtain w ws where "split_byte c xs = w # ws" by (cases "split_byte c xs") auto
  with Cons show ?case by simp
qed simp

lemma length_a_query: "length (build_a_record_query domain) = length domain + 18"
  by (simp add: build_a_record_query_def length_push_labels query_header_def)

section \<open>A concrete resolver\<close>

definition toy_session :: client_state where
  "toy_session =
     \<lparr>cs_resolver_ip = (V4 9 9 9 9, 8443), cs_client_pk = replicate 32 1, cs_client_magic = replicate 8 5,
      cs_shared_key = replicate 32 3, cs_ts_end = 1800000000\<rparr>"

definition toy_answers :: "dns_rr list" where
  "toy_answers =
     [\<lparr>rr_name = Pointer 0xC0 12, rr_type = 1, rr_class = 1, rr_ttl = 60, rr_data = [192, 36, 143, 134]\<rparr>]"

definition toy_message :: bytes where
  "toy_message =
     dns_response [0xab, 0xcd, 0x81, 0x80, 0, 1] [0, 0, 0, 0] [lit ''roughtime'', lit ''se''] [0, 1, 0, 1]
       toy_answers []"

definition toy_packet :: bytes where
  "toy_packet =
     response_packet toy_lib toy_session (replicate 12 2) (replicate 12 4) (pad_query toy_message 64)"

definition toy_dns :: env where
  "toy_dns = toy_env (toy_net \<lparr>udp_recv := (\<lambda>t. Received toy_packet)\<rparr>)"

lemma toy_dns_simps:
  "lib toy_dns = toy_lib" "rand_ok (net toy_dns) t" "udp_bind_ok (net toy_dns) t"
  "query_nonce toy_dns t = replicate 12 2" "delivers toy_dns addr query t toy_packet"
  by (simp_all add: toy_dns_def toy_net_def query_nonce_def delivers_def map_replicate_const)

lemma toy_answers_wf:
  "response_wf [0xab, 0xcd, 0x81, 0x80, 0, 1] [0, 0, 0, 0] [lit ''roughtime'', lit ''se''] [0, 1, 0, 1]
     toy_answers"
  by (simp add: response_wf_def rr_wf_def toy_answers_def)

lemma toy_packet_fits: "length toy_packet \<le> 4096"
  by (simp add: toy_packet_def response_packet_def resolver_magic_def pad_query_def toy_message_def
      dns_response_def toy_answers_def rr_bytes_def Let_def)

lemma toy_packet_kept: "\<not> truncated toy_packet"
  unfolding toy_packet_def by (rule resolver_magic_not_truncated)

lemma toy_first_a: "first_a toy_answers = Ok (V4 192 36 143 134)"
  by (simp add: toy_answers_def)

lemma toy_resolves:
  "\<exists>t'. resolve_domain_via_dnscrypt_session toy_session domain toy_dns [] = (Ok (V4 192 36 143 134), t')"
proof -
  let ?q = "request_packet toy_lib toy_session (replicate 12 2) domain"
  obtain t' where sent: "send_dns_query (V4 9 9 9 9, 8443) ?q False toy_dns [Rand_Fill 12] = (Ok toy_packet, t')"
    using send_dns_query_answered [of toy_dns "[Rand_Fill 12]" "(V4 9 9 9 9, 8443)" ?q toy_packet]
      toy_packet_fits toy_packet_kept
    by (auto simp: toy_dns_simps udp_answered_def)
  obtain n where pad: "pad_query toy_message 64 = toy_message @ 0x80 # replicate n 0"
    using pad_query_shape by blast
  have "parse_dns_response toy_message = Ok (V4 192 36 143 134)"
    unfolding toy_message_def using parse_dns_encoded [OF toy_answers_wf] toy_first_a by simp
  then have "read_response_packet toy_lib toy_session (replicate 12 2) toy_packet = Ok (V4 192 36 143 134)"
    unfolding toy_packet_def pad by (intro read_response_packet_complete) simp_all
  with sent show ?thesis
    by (auto simp: resolve_session_Ok_iff toy_dns_simps toy_session_def)
qed

section \<open>A concrete provider\<close>

definition toy_cert :: dnscrypt_cert where
  "toy_cert =
     \<lparr>resolver_pk = replicate 32 6, cert_magic = replicate 8 5, serial = 7, ts_start = 0,
      cert_ts_end = 1800000000\<rparr>"

definition toy_raw :: bytes where
  "toy_raw = cert_bytes [0, 0] (take 64 (cert_signed toy_cert [] @ replicate 64 0)) toy_cert []"

definition toy_txt :: "dns_rr list" where
  "toy_txt =
     [\<lparr>rr_name = Pointer 0xC0 12, rr_type = 16, rr_class = 1, rr_ttl = 60,
       rr_data = push_labels [toy_raw]\<rparr>]"

definition toy_txt_response :: bytes where
  "toy_txt_response =
     dns_response [0xab, 0xcd, 0x81, 0x80, 0, 1] [0, 0, 0, 0] [lit ''a''] [0, 16, 0, 1] toy_txt []"

definition toy_provider :: env where
  "toy_provider = toy_env (toy_net \<lparr>udp_recv := (\<lambda>t. Received toy_txt_response)\<rparr>)"

lemma length_toy_raw: "length toy_raw = 124"
  by (simp add: toy_raw_def cert_bytes_def cert_signed_def toy_cert_def)

lemma toy_cert_evidence: "cert_evidence toy_lib toy_raw pk toy_cert"
  unfolding cert_evidence_def
  by (rule exI [of _ "[0, 0]"], rule exI [of _ "take 64 (cert_signed toy_cert [] @ replicate 64 0)"],
      rule exI [of _ "[]"])
     (simp add: toy_raw_def toy_cert_def toy_lib_def cert_signed_def)

lemma toy_txt_parsed: "parse_txt_response toy_txt_response = Ok [toy_raw]"
proof -
  have "response_wf [0xab, 0xcd, 0x81, 0x80, 0, 1] [0, 0, 0, 0] [lit ''a''] [0, 16, 0, 1] toy_txt"
    by (simp add: response_wf_def rr_wf_def toy_txt_def length_toy_raw)
  moreover have "txt_texts toy_txt = [toy_raw]"
    using txt_chunks_encoded [of "push_labels [toy_raw]" 0 "[toy_raw]"] length_toy_raw
    by (auto simp: toy_txt_def rest_is_def txt_wf_def split: list.split)
  ultimately show ?thesis
    unfolding toy_txt_response_def by (simp add: parse_txt_encoded)
qed

lemma toy_establishes: "\<exists>s t'. establish_dnscrypt_session toy_provider [] = (Ok s, t')"
proof -
  let ?r = "hd HARDCODED_RESOLVERS"
  let ?q = "build_txt_record_query (hr_provider_name ?r)"
  have fits: "length toy_txt_response \<le> 4096" "\<not> truncated toy_txt_response"
    by (simp_all add: toy_txt_response_def dns_response_def toy_txt_def rr_bytes_def length_toy_raw
        truncated_def)
  obtain t' where sent: "send_dns_query (hr_ip ?r) ?q False toy_provider [] = (Ok toy_txt_response, t')"
    using send_dns_query_answered [of toy_provider "[]" "hr_ip ?r" ?q toy_txt_response] fits
    by (auto simp: udp_answered_def delivers_def toy_provider_def toy_net_def)
  have v: "verify_cert toy_raw pk toy_provider u = (Ok toy_cert, Read_Clock # u)" for pk u
    using toy_cert_evidence
    by (simp add: verify_cert_Ok_iff toy_provider_def toy_net_def cert_current_def)
  have "\<exists>s u. key_exchange ?r toy_cert toy_provider t = (Ok s, u)" for t
    by (simp add: key_exchange_def agree_def toy_provider_def toy_net_def toy_lib_def toy_cert_def)
  then obtain s u where k: "key_exchange ?r toy_cert toy_provider (Read_Clock # t') = (Ok s, u)"
    by blast
  have "try_resolvers (?r # tl HARDCODED_RESOLVERS) toy_provider [] = (Ok s, u)"
    by (simp only: try_resolvers.simps on_result_eq sent prod.case result.case toy_txt_parsed)
       (simp add: toy_txt_parsed on_result_eq v k)
  then show ?thesis
    by (auto simp: establish_dnscrypt_session_def HARDCODED_RESOLVERS_def)
qed

section \<open>The session cache\<close>

definition cache_ok :: "crypto_lib \<Rightarrow> client_state option \<Rightarrow> bool" where
  "cache_ok L cache \<longleftrightarrow> (\<forall>s. cache = Some s \<longrightarrow> session_ok L s)"

lemma get_session_cases:
  assumes "get_or_establish_session cache E t = (Ok (s, cache'), t')"
  shows "cache' = Some s \<and>
    (cache = Some s \<and> clock_now (net E) t < ucast (cs_ts_end s) \<or>
     (\<exists>u. establish_dnscrypt_session E u = (Ok s, t')) \<and>
     (\<forall>old. cache = Some old \<longrightarrow> ucast (cs_ts_end old) \<le> clock_now (net E) t))"
  using assms
  by (auto simp: get_or_establish_session_def bind_Ok_iff not_less split: option.splits if_splits)

lemma get_session_ok:
  assumes "get_or_establish_session cache E t = (Ok (s, cache'), t')" and "cache_ok (lib E) cache"
  shows "session_ok (lib E) s" and "cache_ok (lib E) cache'"
  using get_session_cases [OF assms(1)] assms(2) establish_session
  by (auto simp: cache_ok_def)

lemma resolve_name_cases:
  assumes "resolve_name cache domain E t = (Ok (r, cache'), t')"
  shows "(\<exists>e. r = Err e) \<and> cache' = cache \<or>
    (\<exists>s u. get_or_establish_session cache E t = (Ok (s, cache'), u) \<and>
      (\<forall>addr. r = Ok addr \<longrightarrow> snd addr = 0 \<and>
        resolve_domain_via_dnscrypt_session s domain E u = (Ok (fst addr), t')))"
  using assms by (auto simp: resolve_name_def on_result_Ok_iff)

section \<open>Properties\<close>

text \<open>
  Every session rests on a hard-coded provider: its magic and expiry are those of a certificate
  signed by the provider of one of the hard-coded resolvers, it is used with that resolver's address,
  and its key comes from a key agreement with the certified resolver key.
\<close>

theorem session_provenance:
  assumes "establish_dnscrypt_session E t = (Ok s, t')"
  shows "session_ok (lib E) s"
  using assms by (rule establish_session)

theorem session_provenance_witness: "\<exists>s. session_ok toy_lib s"
proof -
  obtain s t' where "establish_dnscrypt_session toy_provider [] = (Ok s, t')"
    using toy_establishes by blast
  from session_provenance [OF this] show ?thesis by (auto simp: toy_provider_def)
qed

text \<open>
  C23. The certificate of a session is the best on offer: among the raw certificates of a resolver,
  none that is properly signed and current whenever the clock is read has a higher serial than the
  chosen one, and the chosen one is properly signed.
\<close>

theorem best_certificate_chosen:
  assumes "best_cert pk None raws E t = (Ok (Some c) :: (unit, dnscrypt_cert option) result, t')"
  shows "(\<exists>raw\<in>set raws. cert_evidence (lib E) raw pk c) \<and>
    (\<forall>raw\<in>set raws. \<forall>x. cert_evidence (lib E) raw pk x \<longrightarrow>
       (\<forall>u. cert_current (clock_now (net E) u) x) \<longrightarrow> serial x \<le> serial c)"
  using best_cert_evidence [OF assms] best_cert_max [OF assms] by simp

theorem best_certificate_chosen_witness:
  "cert_evidence toy_lib toy_raw [] toy_cert \<and> serial toy_cert \<le> serial toy_cert"
proof -
  have "best_cert [] None [toy_raw] toy_provider [] =
      (Ok (Some toy_cert) :: (unit, dnscrypt_cert option) result, [Read_Clock])"
    using toy_cert_evidence verify_cert_Ok_iff [of toy_raw "[]" toy_provider "[]" toy_cert "[Read_Clock]"]
    by (simp add: on_result_eq toy_provider_def toy_net_def cert_current_def)
  from best_certificate_chosen [OF this] show ?thesis
    using toy_cert_evidence by (simp add: toy_provider_def)
qed

text \<open>
  C24. An address is authentic: it is returned over a session only when the packet received for the
  query consists of the magic, the nonce drawn for this query with twelve more bytes, and the
  encryption under the session key and these nonces of a padded DNS message that yields the address.
\<close>

theorem resolved_address_authentic:
  assumes "resolve_domain_via_dnscrypt_session s domain E t = (Ok ip, t')"
  shows "\<exists>packet rest m n.
    send_dns_query (cs_resolver_ip s) (request_packet (lib E) s (query_nonce E t) domain) False
      E (Rand_Fill 12 # t) = (Ok packet, t') \<and>
    length rest = 12 \<and>
    packet = response_packet (lib E) s (query_nonce E t) rest (m @ 0x80 # replicate n 0) \<and>
    parse_dns_response m = Ok ip"
  using assms read_response_packet_sound [of "query_nonce E t"]
  by (auto simp: resolve_session_Ok_iff)

theorem resolved_address_authentic_witness:
  "\<exists>t' packet rest m n.
     resolve_domain_via_dnscrypt_session toy_session [] toy_dns [] = (Ok (V4 192 36 143 134), t') \<and>
     packet = response_packet toy_lib toy_session (replicate 12 2) rest (m @ 0x80 # replicate n 0) \<and>
     parse_dns_response m = Ok (V4 192 36 143 134)"
proof -
  obtain t' where r: "resolve_domain_via_dnscrypt_session toy_session [] toy_dns [] =
      (Ok (V4 192 36 143 134), t')"
    using toy_resolves by blast
  from resolved_address_authentic [OF r] r show ?thesis
    by (simp add: toy_dns_simps) blast
qed

text \<open>
  C25. The answer of an honest resolver is taken: when the first or, after a loss, the second request
  is answered by the encrypted and padded response whose first A record has the address, the
  resolution returns that address.
\<close>

theorem honest_resolver_answer_taken:
  assumes "rand_ok (net E) t" and "udp_bind_ok (net E) (Rand_Fill 12 # t)"
    and "response_wf head head' question qtype answers" and "first_a answers = Ok ip"
    and "length rest = 12"
    and packet: "packet = response_packet (lib E) s (query_nonce E t) rest
      (pad_query (dns_response head head' question qtype answers trailer) min_len)"
    and "udp_answered E (cs_resolver_ip s) (request_packet (lib E) s (query_nonce E t) domain)
      (Udp_Bind # Rand_Fill 12 # t) packet"
    and "length packet \<le> 4096"
  shows "fst (resolve_domain_via_dnscrypt_session s domain E t) = Ok ip"
proof -
  let ?m = "dns_response head head' question qtype answers trailer"
  obtain n where pad: "pad_query ?m min_len = ?m @ 0x80 # replicate n 0"
    using pad_query_shape by blast
  have "parse_dns_response ?m = Ok ip"
    using parse_dns_encoded [OF assms(3)] assms(4) by simp
  then have read: "read_response_packet (lib E) s (query_nonce E t) packet = Ok ip"
    unfolding packet pad using assms(5) by (intro read_response_packet_complete) simp_all
  have "\<not> truncated packet"
    unfolding packet by (rule resolver_magic_not_truncated)
  then obtain t' where "send_dns_query (cs_resolver_ip s)
      (request_packet (lib E) s (query_nonce E t) domain) False E (Rand_Fill 12 # t) = (Ok packet, t')"
    using send_dns_query_answered [OF assms(2,7) _ assms(8)] by blast
  then have "resolve_domain_via_dnscrypt_session s domain E t = (Ok ip, t')"
    using assms(1) read by (auto simp: resolve_session_Ok_iff)
  then show ?thesis by simp
qed

theorem honest_resolver_answer_taken_witness:
  "fst (resolve_domain_via_dnscrypt_session toy_session (lit ''roughtime.se'') toy_dns []) =
     Ok (V4 192 36 143 134)"
proof -
  have "toy_packet = response_packet toy_lib toy_session (replicate 12 2) (replicate 12 4)
      (pad_query (dns_response [0xab, 0xcd, 0x81, 0x80, 0, 1] [0, 0, 0, 0]
        [lit ''roughtime'', lit ''se''] [0, 1, 0, 1] toy_answers []) 64)"
    by (simp add: toy_packet_def toy_message_def)
  then show ?thesis
    using honest_resolver_answer_taken [where E = toy_dns and t = "[]" and rest = "replicate 12 4"
        and s = toy_session and trailer = "[]" and min_len = 64 and packet = toy_packet,
        OF _ _ toy_answers_wf toy_first_a] toy_packet_fits
    by (simp add: toy_dns_simps udp_answered_def)
qed

text \<open>
  C26. An expired session is not reused and none of doubtful origin enters the cache: the session
  returned is the cached one only while the clock is below its expiry, otherwise it is established
  anew, and a cache of sessions of hard-coded providers stays one, whatever is resolved.
\<close>

theorem session_cache_sound:
  assumes "cache_ok (lib E) cache" and "resolve_name cache domain E t = (Ok (r, cache'), t')"
  shows "cache_ok (lib E) cache' \<and>
    (\<forall>addr. r = Ok addr \<longrightarrow> snd addr = 0 \<and>
      (\<exists>s u. cache' = Some s \<and> session_ok (lib E) s \<and>
        resolve_domain_via_dnscrypt_session s domain E u = (Ok (fst addr), t') \<and>
        (cache = Some s \<and> clock_now (net E) t < ucast (cs_ts_end s) \<or>
         (\<exists>v. establish_dnscrypt_session E v = (Ok s, u)))))"
proof (cases "\<exists>e. r = Err e \<and> cache' = cache")
  case True
  then show ?thesis using assms(1) by auto
next
  case False
  then obtain s u where g: "get_or_establish_session cache E t = (Ok (s, cache'), u)"
    and a: "\<forall>addr. r = Ok addr \<longrightarrow> snd addr = 0 \<and>
        resolve_domain_via_dnscrypt_session s domain E u = (Ok (fst addr), t')"
    using resolve_name_cases [OF assms(2)] by blast
  from get_session_cases [OF g] get_session_ok [OF g assms(1)] a show ?thesis by blast
qed

theorem session_cache_sound_witness:
  "\<exists>r cache' t'. resolve_name None [] toy_provider [] = (Ok (r, cache') :: (unit, _) result, t') \<and>
     cache_ok toy_lib cache'"
proof -
  obtain r cache' t' where
    r: "resolve_name None [] toy_provider [] = (Ok (r, cache') :: (unit, _) result, t')"
    using resolve_name_returns by blast
  have "cache_ok (lib toy_provider) None" by (simp add: cache_ok_def)
  from session_cache_sound [OF this r] r show ?thesis
    by (auto simp: toy_provider_def)
qed

text \<open>
  Requests do not reveal the length of the name: for a name of up to 1005 bytes the packet that
  is sent has 1092 bytes.
\<close>

theorem request_length_hidden:
  assumes "length domain \<le> 1005" and "session_ok L s" and "length client_nonce = 12"
  shows "length (request_packet L s client_nonce domain) = 1092"
proof -
  have "length (pad_query (build_a_record_query domain) 1024) = 1024"
    using assms(1) by (intro length_pad_query) (simp add: length_a_query)
  moreover have "length (cs_client_magic s) = 8" "length (cs_client_pk s) = 32"
    using assms(2) by (auto simp: session_ok_def cert_evidence_def)
  ultimately show ?thesis
    using assms(3) by (simp add: request_packet_def)
qed

theorem request_length_hidden_witness:
  "\<exists>s. session_ok toy_lib s \<and>
     length (request_packet toy_lib s (replicate 12 2) (lit ''github.com'')) = 1092"
proof -
  obtain s t' where "establish_dnscrypt_session toy_provider [] = (Ok s, t')"
    using toy_establishes by blast
  from establish_session [OF this] have s: "session_ok toy_lib s"
    by (simp add: toy_provider_def)
  from request_length_hidden [OF _ s, of "lit ''github.com''" "replicate 12 2"] s show ?thesis
    by (intro exI [of _ s]) simp
qed

end
