(* ===== verification/Limiter.thy ===== *)
theory Limiter
  imports World "HOL-Library.Mapping" "HOL-Library.Multiset"
begin

text \<open>
  The admission control of the attestation server: \<open>Subnet\<close>, \<open>PerSubnetLimiter::acquire\<close> and the
  \<open>Drop\<close> of \<open>SubnetPermit\<close> in \<open>src/attestation.rs\<close>. An \<open>Instant\<close> is a number of nanoseconds and
  \<open>duration_since\<close> saturates at zero. Every operation holds the mutex of the map from its first to
  its last access, so the operations of concurrent connections are atomic steps in some order.

  What a user of the limiter relies on is the interface \<open>admission\<close>: an acquisition admits below the
  bound and counts, a refusal and a release change nothing else. The properties are about every
  interleaving of acquisitions and releases: the active connections of a subnet are the permits in
  circulation and never exceed the bound, and the admissions of a subnet in any window never exceed
  the rate.
\<close>

section \<open>Subnets\<close>

datatype subnet = Subnet_V4 u8 u8 u8 | Subnet_V6 bytes

fun subnet_of :: "ip_addr \<Rightarrow> subnet" where
  "subnet_of (V4 a b c d) = Subnet_V4 a b c"
| "subnet_of (V6 w) = Subnet_V6 (take 8 (array_bytes w))"

section \<open>The limiter\<close>

record subnet_state =
  requests :: "nat list"
  active_connections :: u32

record limiter =
  subnets :: "(subnet, subnet_state) mapping"
  max_requests :: nat
  window :: nat
  max_concurrent :: u32

definition new_limiter :: "nat \<Rightarrow> nat \<Rightarrow> u32 \<Rightarrow> limiter" where
  "new_limiter requests_max interval concurrent_max =
     \<lparr>subnets = Mapping.empty, max_requests = requests_max, window = interval,
      max_concurrent = concurrent_max\<rparr>"

text \<open>The loop that pops instants older than the window off the front.\<close>

fun expire :: "nat \<Rightarrow> nat \<Rightarrow> nat list \<Rightarrow> nat list" where
  "expire interval now [] = []"
| "expire interval now (oldest # rest) =
     (if now - oldest > interval then expire interval now rest else oldest # rest)"

text \<open>The garbage collection: \<open>map.retain\<close> when there are more than 10000 subnets.\<close>

definition collect_garbage :: "limiter \<Rightarrow> nat \<Rightarrow> (subnet, subnet_state) mapping \<Rightarrow> (subnet, subnet_state) mapping" where
  "collect_garbage L now m =
     (if Mapping.size m > 10000 then
        Mapping.filter (\<lambda>_ state. active_connections state > 0 \<or> requests state \<noteq> [])
          (Mapping.map_values (\<lambda>_ state. state\<lparr>requests := expire (window L) now (requests state)\<rparr>) m)
      else m)"

datatype refusal = Rate_Limit_Exceeded | Concurrency_Exceeded

text \<open>The permit is named by the subnet it counts for.\<close>

definition acquire :: "nat \<Rightarrow> ip_addr \<Rightarrow> limiter \<Rightarrow> (refusal, subnet) result \<times> limiter" where
  "acquire now ip L =
     (let subnet = subnet_of ip;
          m = collect_garbage L now (subnets L);
          state = Mapping.lookup_default \<lparr>requests = [], active_connections = 0\<rparr> m subnet;
          state = state\<lparr>requests := expire (window L) now (requests state)\<rparr>;
          refused = L\<lparr>subnets := Mapping.update subnet state m\<rparr>
      in if length (requests state) \<ge> max_requests L then (Err Rate_Limit_Exceeded, refused)
         else if active_connections state \<ge> max_concurrent L then (Err Concurrency_Exceeded, refused)
         else (Ok subnet,
           L\<lparr>subnets := Mapping.update subnet
               (state\<lparr>requests := requests state @ [now],
                      active_connections := active_connections state + 1\<rparr>) m\<rparr>))"

definition saturating_sub :: "'a::len word \<Rightarrow> 'a word \<Rightarrow> 'a word" where
  "saturating_sub x y = (if y \<le> x then x - y else 0)"

text \<open>\<open>Drop\<close> of a permit.\<close>

definition release :: "subnet \<Rightarrow> limiter \<Rightarrow> limiter" where
  "release permit L =
     (case Mapping.lookup (subnets L) permit of
        None \<Rightarrow> L
      | Some state \<Rightarrow>
          L\<lparr>subnets := Mapping.update permit
              (state\<lparr>active_connections := saturating_sub (active_connections state) 1\<rparr>) (subnets L)\<rparr>)"

section \<open>The interface\<close>

text \<open>
  Admission control over keys: \<open>active\<close> reads the connections in progress, \<open>bound\<close> limits them. A
  permit is the key it counts for.
\<close>

locale admission =
  fixes acq :: "'i \<Rightarrow> 's \<Rightarrow> ('e, 'k) result \<times> 's"
    and rel :: "'k \<Rightarrow> 's \<Rightarrow> 's"
    and key :: "'i \<Rightarrow> 'k"
    and active :: "'s \<Rightarrow> 'k \<Rightarrow> nat"
    and bound :: "'s \<Rightarrow> nat"
  assumes admits: "acq i s = (Ok p, s') \<Longrightarrow>
      p = key i \<and> active s p < bound s \<and> active s' = (active s)(p := Suc (active s p)) \<and> bound s' = bound s"
    and refuses: "acq i s = (Err e, s') \<Longrightarrow> active s' = active s \<and> bound s' = bound s"
    and decides: "fst (acq i s) \<noteq> Panic"
    and releases: "0 < active s p \<Longrightarrow>
      active (rel p s) = (active s)(p := active s p - 1) \<and> bound (rel p s) = bound s"
begin

text \<open>The active connections are the permits in circulation, within the bound.\<close>

definition accounted :: "'s \<Rightarrow> 'k multiset \<Rightarrow> bool" where
  "accounted s permits \<longleftrightarrow> (\<forall>p. active s p = count permits p \<and> count permits p \<le> bound s)"

lemma accounted_admit: "accounted s permits \<Longrightarrow> acq i s = (Ok p, s') \<Longrightarrow> accounted s' (add_mset p permits)"
  using admits [of i s p s'] by (auto simp: accounted_def Suc_le_eq)

lemma accounted_refuse: "accounted s permits \<Longrightarrow> acq i s = (Err e, s') \<Longrightarrow> accounted s' permits"
  using refuses [of i s e s'] by (auto simp: accounted_def)

lemma accounted_release:
  assumes "accounted s permits" and "p \<in># permits"
  shows "accounted (rel p s) (permits - {#p#})"
proof -
  have c: "active s q = count permits q" "count permits q \<le> bound s" for q
    using assms(1) by (simp_all add: accounted_def)
  have "0 < active s p" using assms(2) c by simp
  from releases [OF this] c show ?thesis
    by (auto simp: accounted_def intro: le_trans [OF diff_le_self])
qed

text \<open>A key at the bound is refused, one below it only for another reason.\<close>

lemma full_refused: "active s (key i) \<ge> bound s \<Longrightarrow> \<exists>e s'. acq i s = (Err e, s')"
  using admits [of i s] decides [of i s]
  by (cases "acq i s"; cases "fst (acq i s)") (auto simp: not_less)

end

section \<open>The limiter provides the interface\<close>

definition state_of :: "limiter \<Rightarrow> subnet \<Rightarrow> subnet_state" where
  "state_of L k = Mapping.lookup_default \<lparr>requests = [], active_connections = 0\<rparr> (subnets L) k"

definition active_of :: "limiter \<Rightarrow> subnet \<Rightarrow> nat" where
  "active_of L k = unat (active_connections (state_of L k))"

definition bound_of :: "limiter \<Rightarrow> nat" where
  "bound_of L = unat (max_concurrent L)"

abbreviation absent :: subnet_state where
  "absent \<equiv> \<lparr>requests = [], active_connections = 0\<rparr>"

abbreviation expired :: "limiter \<Rightarrow> nat \<Rightarrow> subnet_state \<Rightarrow> subnet_state" where
  "expired L now st \<equiv> st\<lparr>requests := expire (window L) now (requests st)\<rparr>"

lemma expire_idem [simp]: "expire w now (expire w now rs) = expire w now rs"
  by (induction rs) auto

text \<open>Garbage collection at most expires the requests of a subnet; a removed one reads as absent.\<close>

lemma lookup_collect_garbage:
  "\<exists>b. \<forall>k. Mapping.lookup_default absent (collect_garbage L now m) k =
     (let st = Mapping.lookup_default absent m k in if b then expired L now st else st)"
proof (cases "Mapping.size m > 10000")
  case False
  then show ?thesis by (intro exI [of _ False]) (simp add: collect_garbage_def)
next
  case True
  have "Mapping.lookup_default absent (collect_garbage L now m) k =
      expired L now (Mapping.lookup_default absent m k)" for k
    using True by (cases "Mapping.lookup m k")
       (auto simp: collect_garbage_def Mapping.lookup_default_def lookup_filter lookup_map_values
         word_gt_0)
  then show ?thesis by (intro exI [of _ True]) (simp add: Let_def)
qed

lemma state_of_update [simp]:
  "state_of (L\<lparr>subnets := Mapping.update k st m\<rparr>) =
     (\<lambda>k'. if k' = k then st else Mapping.lookup_default absent m k')"
  by (auto simp: state_of_def lookup_default_update lookup_default_update_neq)

text \<open>
  What \<open>acquire\<close> does to the state of every subnet: it expires the requests of its own subnet, and
  of all others or of none, and admits when both limits allow.
\<close>

lemma acquire_cases:
  fixes L now ip
  defines "k \<equiv> subnet_of ip" and "st \<equiv> expired L now (state_of L (subnet_of ip))"
  obtains L' where
    "acquire now ip L =
       (if length (requests st) \<ge> max_requests L then (Err Rate_Limit_Exceeded, L')
        else if active_connections st \<ge> max_concurrent L then (Err Concurrency_Exceeded, L')
        else (Ok k, L'))"
    "max_requests L' = max_requests L" "window L' = window L" "max_concurrent L' = max_concurrent L"
    "\<And>k'. k' \<noteq> k \<Longrightarrow> state_of L' k' = state_of L k' \<or> state_of L' k' = expired L now (state_of L k')"
    "state_of L' k = (if fst (acquire now ip L) = Ok k
       then st\<lparr>requests := requests st @ [now], active_connections := active_connections st + 1\<rparr> else st)"
proof -
  obtain b where b: "\<And>k. Mapping.lookup_default absent (collect_garbage L now (subnets L)) k =
     (if b then expired L now (state_of L k) else state_of L k)"
    using lookup_collect_garbage [of L now "subnets L"] by (force simp: state_of_def Let_def)
  have st: "expired L now (Mapping.lookup_default absent (collect_garbage L now (subnets L)) k) = st"
    unfolding b st_def k_def by simp
  show thesis
    by (rule that [of "snd (acquire now ip L)"];
        simp add: acquire_def Let_def st [unfolded k_def] flip: k_def; simp add: b k_def st_def)
qed

lemma release_state:
  "state_of (release p L) = (state_of L)(p := (state_of L p)\<lparr>active_connections :=
     saturating_sub (active_connections (state_of L p)) 1\<rparr>)"
proof (cases "Mapping.lookup (subnets L) p")
  case None
  then show ?thesis
    by (intro ext) (simp add: release_def state_of_def Mapping.lookup_default_def saturating_sub_def)
next
  case (Some st)
  then show ?thesis
    by (intro ext) (simp add: release_def, simp add: state_of_def Mapping.lookup_default_def)
qed

lemma release_bounds [simp]:
  "max_requests (release p L) = max_requests L" "window (release p L) = window L"
  "max_concurrent (release p L) = max_concurrent L"
  by (simp_all add: release_def split: option.splits)

lemma unat_Suc: "(a :: u32) < b \<Longrightarrow> unat (a + 1) = Suc (unat a)"
proof -
  assume "a < b"
  then have "unat a < unat b" "unat b < 2 ^ 32"
    using unsigned_less [where ?'a = nat, of b] by (simp_all add: word_less_nat_alt)
  then show ?thesis by (simp add: unat_word_ariths)
qed

lemma unat_pred: "0 < (a :: u32) \<Longrightarrow> unat (saturating_sub a 1) = unat a - 1"
  by (simp add: saturating_sub_def word_le_nat_alt word_less_nat_alt unat_sub_if_size)

lemma acquire_active:
  "active_of (snd (acquire now ip L)) =
     (if fst (acquire now ip L) = Ok (subnet_of ip)
      then (active_of L)(subnet_of ip := Suc (active_of L (subnet_of ip))) else active_of L)"
  "fst (acquire now ip L) \<noteq> Panic"
  "fst (acquire now ip L) = Ok p \<Longrightarrow> p = subnet_of ip \<and> active_of L p < bound_of L"
  "bound_of (snd (acquire now ip L)) = bound_of L"
proof -
  obtain L' where L':
    "acquire now ip L =
       (let st = expired L now (state_of L (subnet_of ip)) in
        if length (requests st) \<ge> max_requests L then (Err Rate_Limit_Exceeded, L')
        else if active_connections st \<ge> max_concurrent L then (Err Concurrency_Exceeded, L')
        else (Ok (subnet_of ip), L'))"
    "max_concurrent L' = max_concurrent L"
    "\<And>k'. k' \<noteq> subnet_of ip \<Longrightarrow>
       state_of L' k' = state_of L k' \<or> state_of L' k' = expired L now (state_of L k')"
    "state_of L' (subnet_of ip) =
       (let st = expired L now (state_of L (subnet_of ip)) in
        if fst (acquire now ip L) = Ok (subnet_of ip)
        then st\<lparr>requests := requests st @ [now], active_connections := active_connections st + 1\<rparr> else st)"
    unfolding Let_def by (rule acquire_cases [where L = L and now = now and ip = ip]) blast
  have snd: "snd (acquire now ip L) = L'"
    using L'(1) by (simp add: Let_def)
  have other: "active_of L' k' = active_of L k'" if "k' \<noteq> subnet_of ip" for k'
    using L'(3) [OF that] by (auto simp: active_of_def)
  have own: "active_of L' (subnet_of ip) = (if fst (acquire now ip L) = Ok (subnet_of ip)
      then Suc (active_of L (subnet_of ip)) else active_of L (subnet_of ip))"
    using L'(1,4) unat_Suc by (auto simp: active_of_def Let_def not_le split: if_splits)
  show "active_of (snd (acquire now ip L)) =
     (if fst (acquire now ip L) = Ok (subnet_of ip)
      then (active_of L)(subnet_of ip := Suc (active_of L (subnet_of ip))) else active_of L)"
    unfolding snd using own other by (intro ext) auto
  show "fst (acquire now ip L) \<noteq> Panic" using L'(1) by (simp add: Let_def)
  show "fst (acquire now ip L) = Ok p \<Longrightarrow> p = subnet_of ip \<and> active_of L p < bound_of L"
    using L'(1) by (auto simp: Let_def active_of_def bound_of_def not_le word_less_nat_alt split: if_splits)
  show "bound_of (snd (acquire now ip L)) = bound_of L"
    unfolding snd by (simp add: bound_of_def L'(2))
qed

interpretation subnet_admission: admission
  "\<lambda>(now, ip). acquire now ip" release "\<lambda>(now, ip). subnet_of ip" active_of bound_of
proof
  fix i :: "nat \<times> ip_addr" and s s' :: limiter and p e
  obtain now ip where i: "i = (now, ip)" by (cases i)
  show "(case i of (now, ip) \<Rightarrow> acquire now ip) s = (Ok p, s') \<Longrightarrow>
      p = (case i of (now, ip) \<Rightarrow> subnet_of ip) \<and> active_of s p < bound_of s \<and>
      active_of s' = (active_of s)(p := Suc (active_of s p)) \<and> bound_of s' = bound_of s"
    using acquire_active(1,3,4) [of now ip s] by (auto simp: i)
  show "(case i of (now, ip) \<Rightarrow> acquire now ip) s = (Err e, s') \<Longrightarrow>
      active_of s' = active_of s \<and> bound_of s' = bound_of s"
    using acquire_active(1,4) [of now ip s] by (auto simp: i)
  show "fst ((case i of (now, ip) \<Rightarrow> acquire now ip) s) \<noteq> Panic"
    by (simp add: i acquire_active(2))
next
  fix s :: limiter and p
  assume "0 < active_of s p"
  then have "0 < active_connections (state_of s p)"
    by (simp add: active_of_def word_less_nat_alt)
  then show "active_of (release p s) = (active_of s)(p := active_of s p - 1) \<and>
      bound_of (release p s) = bound_of s"
    by (intro conjI ext) (simp_all add: active_of_def bound_of_def release_state unat_pred)
qed

section \<open>Runs\<close>

text \<open>
  \<open>limiter_run L0 clock L permits h\<close>: from the limiter \<open>L0\<close>, some sequence of acquisitions at
  non-decreasing instants and of releases of permits in circulation has led to \<open>L\<close>, the last
  acquisition at \<open>clock\<close>, with \<open>permits\<close> in circulation and the admissions \<open>h\<close>, newest first.
\<close>

inductive limiter_run ::
  "limiter \<Rightarrow> nat \<Rightarrow> limiter \<Rightarrow> subnet multiset \<Rightarrow> (nat \<times> subnet) list \<Rightarrow> bool" for L0 where
  start: "limiter_run L0 0 L0 {#} []"
| admit: "limiter_run L0 clock L permits h \<Longrightarrow> clock \<le> now \<Longrightarrow> acquire now ip L = (Ok p, L') \<Longrightarrow>
    limiter_run L0 now L' (add_mset p permits) ((now, p) # h)"
| refuse: "limiter_run L0 clock L permits h \<Longrightarrow> clock \<le> now \<Longrightarrow> acquire now ip L = (Err e, L') \<Longrightarrow>
    limiter_run L0 now L' permits h"
| give_back: "limiter_run L0 clock L permits h \<Longrightarrow> p \<in># permits \<Longrightarrow>
    limiter_run L0 clock (release p L) (permits - {#p#}) h"

definition times :: "subnet \<Rightarrow> (nat \<times> subnet) list \<Rightarrow> nat list" where
  "times k h = map fst (filter (\<lambda>(t, k'). k' = k) h)"

abbreviation recent :: "nat \<Rightarrow> nat \<Rightarrow> nat list \<Rightarrow> nat list" where
  "recent w now ts \<equiv> filter (\<lambda>t. now - t \<le> w) ts"

text \<open>
  The requests kept for a subnet are its admissions as far as they are recent, now or later, in
  order.
\<close>

definition kept :: "limiter \<Rightarrow> nat \<Rightarrow> (nat \<times> subnet) list \<Rightarrow> bool" where
  "kept L clock h \<longleftrightarrow>
     (\<forall>k. sorted (requests (state_of L k)) \<and> (\<forall>t\<in>set (requests (state_of L k)). t \<le> clock) \<and>
        (\<forall>now\<ge>clock. recent (window L) now (rev (requests (state_of L k))) = recent (window L) now (times k h)))"

lemma expire_sorted: "sorted rs \<Longrightarrow> expire w now rs = recent w now rs"
proof (induction rs)
  case (Cons r rs)
  show ?case
  proof (cases "now - r > w")
    case True
    then show ?thesis using Cons by simp
  next
    case False
    have "\<forall>t\<in>set rs. now - t \<le> w"
      using Cons.prems False by (auto intro: le_trans [OF diff_le_mono2])
    then show ?thesis using False by simp
  qed
qed simp

lemma kept_expire:
  assumes "sorted rs" and "\<forall>t\<in>set rs. t \<le> clock" and "clock \<le> now"
    and "\<forall>now\<ge>clock. recent w now (rev rs) = recent w now ts"
  shows "sorted (expire w now rs) \<and> (\<forall>t\<in>set (expire w now rs). t \<le> now) \<and>
    (\<forall>now'\<ge>now. recent w now' (rev (expire w now rs)) = recent w now' ts)"
proof (intro conjI allI impI)
  show "sorted (expire w now rs)"
    using assms(1) by (simp add: expire_sorted sorted_filter [of id, simplified])
  show "\<forall>t\<in>set (expire w now rs). t \<le> now"
    using assms(1-3) by (auto simp: expire_sorted)
  fix now' assume n: "now \<le> now'"
  have "recent w now' (rev (expire w now rs)) = recent w now' (rev rs)"
    using assms(1) n by (auto simp: expire_sorted rev_filter intro!: filter_cong)
  also have "\<dots> = recent w now' ts" using assms(3,4) n by simp
  finally show "recent w now' (rev (expire w now rs)) = recent w now' ts" .
qed

lemma times_Cons [simp]: "times k ((t, k') # h) = (if k' = k then t # times k h else times k h)"
  by (simp add: times_def)

lemma kept_acquire:
  assumes kept: "kept L clock h" and now: "clock \<le> now" and acq: "acquire now ip L = (r, L')"
  shows "kept L' now (case r of Ok p \<Rightarrow> (now, p) # h | _ \<Rightarrow> h)" and "window L' = window L"
    and "max_requests L' = max_requests L"
proof -
  let ?k = "subnet_of ip"
  obtain L'' where L:
    "acquire now ip L =
       (let st = expired L now (state_of L ?k) in
        if length (requests st) \<ge> max_requests L then (Err Rate_Limit_Exceeded, L'')
        else if active_connections st \<ge> max_concurrent L then (Err Concurrency_Exceeded, L'')
        else (Ok ?k, L''))"
    "max_requests L'' = max_requests L" "window L'' = window L"
    "\<And>k'. k' \<noteq> ?k \<Longrightarrow>
       state_of L'' k' = state_of L k' \<or> state_of L'' k' = expired L now (state_of L k')"
    "state_of L'' ?k =
       (let st = expired L now (state_of L ?k) in
        if fst (acquire now ip L) = Ok ?k
        then st\<lparr>requests := requests st @ [now], active_connections := active_connections st + 1\<rparr> else st)"
    unfolding Let_def by (rule acquire_cases [where L = L and now = now and ip = ip]) blast
  have "L'' = L'" using L(1) acq by (simp add: Let_def split: if_splits)
  note L = L [unfolded this]
  show "window L' = window L" "max_requests L' = max_requests L" by (fact L)+
  have old: "sorted (requests (state_of L k))" "\<forall>t\<in>set (requests (state_of L k)). t \<le> clock"
      "\<forall>now\<ge>clock. recent (window L) now (rev (requests (state_of L k))) = recent (window L) now (times k h)"
    for k using kept by (auto simp: kept_def)
  note new = kept_expire [OF old(1,2) now old(3)]
  have same: "sorted (requests (state_of L k)) \<and> (\<forall>t\<in>set (requests (state_of L k)). t \<le> now) \<and>
      (\<forall>now'\<ge>now. recent (window L) now' (rev (requests (state_of L k))) = recent (window L) now' (times k h))"
    for k using old [of k] now by (meson le_trans)
  have others: "sorted (requests (state_of L' k)) \<and> (\<forall>t\<in>set (requests (state_of L' k)). t \<le> now) \<and>
      (\<forall>now'\<ge>now. recent (window L) now' (rev (requests (state_of L' k))) = recent (window L) now' (times k h))"
    if "k \<noteq> ?k" for k
    using L(4) [OF that] new [of k] same [of k] by auto
  have r: "r = fst (acquire now ip L)" using acq by simp
  have own: "requests (state_of L' ?k) = (if r = Ok ?k
      then expire (window L) now (requests (state_of L ?k)) @ [now]
      else expire (window L) now (requests (state_of L ?k)))"
    using L(5) by (simp add: Let_def r)
  have cases: "r = Ok ?k \<or> (\<exists>e. r = Err e)"
    unfolding r using L(1) by (simp add: Let_def)
  show "kept L' now (case r of Ok p \<Rightarrow> (now, p) # h | _ \<Rightarrow> h)"
    unfolding kept_def
  proof (intro allI)
    fix k
    show "sorted (requests (state_of L' k)) \<and> (\<forall>t\<in>set (requests (state_of L' k)). t \<le> now) \<and>
      (\<forall>now'\<ge>now. recent (window L') now' (rev (requests (state_of L' k))) =
        recent (window L') now' (times k (case r of Ok p \<Rightarrow> (now, p) # h | _ \<Rightarrow> h)))"
      using own new [of ?k] others [of k] cases L(3)
      by (cases "k = ?k") (auto simp: sorted_append)
  qed
qed

lemma kept_release: "kept L clock h \<Longrightarrow> kept (release p L) clock h"
  by (auto simp: kept_def release_state)

lemma acquire_permit: "acquire now ip L = (Ok p, L') \<Longrightarrow> p = subnet_of ip"
  using acquire_active(3) [of now ip L p] by simp

lemma run_kept:
  "limiter_run L0 clock L permits h \<Longrightarrow> kept L0 0 [] \<Longrightarrow>
     kept L clock h \<and> window L = window L0 \<and> max_requests L = max_requests L0 \<and>
     max_concurrent L = max_concurrent L0"
proof (induction rule: limiter_run.induct)
  case (admit clock L permits h now ip p L')
  then have "kept L clock h" by simp
  from kept_acquire [OF this admit.hyps(2,3)] admit acquire_active(4) [of now ip L]
  show ?case by (simp add: bound_of_def word_unat_eq_iff)
next
  case (refuse clock L permits h now ip e L')
  then have "kept L clock h" by simp
  from kept_acquire [OF this refuse.hyps(2,3)] refuse acquire_active(4) [of now ip L]
  show ?case by (simp add: bound_of_def word_unat_eq_iff)
qed (auto simp: kept_release)

lemma run_accounted:
  "limiter_run L0 clock L permits h \<Longrightarrow> subnet_admission.accounted L0 {#} \<Longrightarrow>
     subnet_admission.accounted L permits"
proof (induction rule: limiter_run.induct)
  case (admit clock L permits h now ip p L')
  then show ?case
    using subnet_admission.accounted_admit [of L permits "(now, ip)" p L'] by simp
next
  case (refuse clock L permits h now ip e L')
  then show ?case
    using subnet_admission.accounted_refuse [of L permits "(now, ip)" e L'] by simp
next
  case (give_back clock L permits h p)
  then show ?case by (auto intro: subnet_admission.accounted_release)
qed

lemma new_limiter_start:
  "kept (new_limiter mr w mc) 0 []" "subnet_admission.accounted (new_limiter mr w mc) {#}"
  "max_requests (new_limiter mr w mc) = mr" "window (new_limiter mr w mc) = w"
  "max_concurrent (new_limiter mr w mc) = mc"
  by (simp_all add: kept_def times_def subnet_admission.accounted_def state_of_def active_of_def
      new_limiter_def lookup_default_empty)

text \<open>In a run the decision depends on the recent admissions and the permits in circulation only.\<close>

lemma run_decides:
  assumes run: "limiter_run (new_limiter mr w mc) clock L permits h" and now: "clock \<le> now"
  shows "fst (acquire now ip L) =
    (if mr \<le> length (recent w now (times (subnet_of ip) h)) then Err Rate_Limit_Exceeded
     else if unat mc \<le> count permits (subnet_of ip) then Err Concurrency_Exceeded
     else Ok (subnet_of ip))"
proof -
  let ?k = "subnet_of ip"
  have k: "kept L clock h" "window L = w" "max_requests L = mr" "max_concurrent L = mc"
    using run_kept [OF run new_limiter_start(1)] by (simp_all add: new_limiter_start)
  have "sorted (requests (state_of L ?k))"
      "recent w now (rev (requests (state_of L ?k))) = recent w now (times ?k h)"
    using k(1,2) now by (auto simp: kept_def)
  then have len: "length (expire w now (requests (state_of L ?k))) = length (recent w now (times ?k h))"
    by (metis expire_sorted length_rev rev_filter)
  have act: "unat (active_connections (state_of L ?k)) = count permits ?k"
    using run_accounted [OF run new_limiter_start(2)]
    by (simp add: subnet_admission.accounted_def active_of_def)
  show ?thesis
    by (rule acquire_cases [where L = L and now = now and ip = ip])
       (simp add: k len word_le_nat_alt act)
qed

lemma length_filter_weaken: "(\<And>x. P x \<Longrightarrow> Q x) \<Longrightarrow> length (filter P xs) \<le> length (filter Q xs)"
  by (induction xs) auto

lemma run_rate:
  "limiter_run L0 clock L permits h \<Longrightarrow> L0 = new_limiter mr w mc \<Longrightarrow>
     length (filter (\<lambda>t. a \<le> t \<and> t \<le> a + w) (times k h)) \<le> mr"
proof (induction rule: limiter_run.induct)
  case (admit clock L permits h now ip p L')
  have ip: "p = subnet_of ip" using acquire_permit admit.hyps(3) by blast
  have "fst (acquire now ip L) = Ok p" using admit.hyps(3) by simp
  then have few: "length (recent w now (times p h)) < mr"
    using run_decides [of mr w mc clock L permits h now ip] admit.hyps(1,2) admit.prems ip
    by (auto split: if_splits)
  have IH: "length (filter (\<lambda>t. a \<le> t \<and> t \<le> a + w) (times k h)) \<le> mr"
    using admit.IH admit.prems .
  show ?case
  proof (cases "p = k \<and> a \<le> now \<and> now \<le> a + w")
    case True
    have "length (filter (\<lambda>t. a \<le> t \<and> t \<le> a + w) (times k h)) \<le> length (recent w now (times k h))"
      using True by (intro length_filter_weaken) auto
    with few True show ?thesis by simp
  next
    case False
    then show ?thesis using IH by auto
  qed
qed (simp_all add: times_def)

section \<open>Properties\<close>

text \<open>
  C27. The limiter decides as its specification over the history does, in every interleaving of
  acquisitions and releases: a subnet is refused for its rate exactly when it has \<open>mr\<close> admissions in
  the window that ends now, else for concurrency exactly when \<open>mc\<close> of its permits are in
  circulation, and is admitted otherwise. Garbage collection never changes a decision.
\<close>

theorem limiter_decides_by_history:
  assumes "limiter_run (new_limiter mr w mc) clock L permits h" and "clock \<le> now"
  shows "fst (acquire now ip L) =
    (if mr \<le> length (filter (\<lambda>t. now - t \<le> w) (times (subnet_of ip) h)) then Err Rate_Limit_Exceeded
     else if unat mc \<le> count permits (subnet_of ip) then Err Concurrency_Exceeded
     else Ok (subnet_of ip))"
  using assms by (rule run_decides)

theorem limiter_decides_by_history_witness:
  "fst (acquire 5 (V4 10 0 0 1) (new_limiter 10 3000000000 2)) = Ok (Subnet_V4 10 0 0)"
  using limiter_decides_by_history [OF limiter_run.start, where now = 5 and mr = 10 and w = 3000000000 and mc = 2 and ip = "V4 10 0 0 1"]
  by (simp add: times_def)

text \<open>
  In no interval of the length of the window does a subnet get more than \<open>mr\<close> admissions, and at
  no moment more than \<open>mc\<close> connections: the active connections of each subnet are its permits in
  circulation.
\<close>

theorem limiter_bounds:
  assumes "limiter_run (new_limiter mr w mc) clock L permits h"
  shows "length (filter (\<lambda>t. a \<le> t \<and> t \<le> a + w) (times k h)) \<le> mr \<and>
    active_of L k = count permits k \<and> count permits k \<le> unat mc"
  using run_rate [OF assms refl] run_accounted [OF assms new_limiter_start(2)]
    run_kept [OF assms new_limiter_start(1)]
  by (simp add: subnet_admission.accounted_def bound_of_def new_limiter_start)

theorem limiter_bounds_witness:
  "\<exists>L. limiter_run (new_limiter 10 3000000000 2) 5 L {#Subnet_V4 10 0 0#} [(5, Subnet_V4 10 0 0)] \<and>
     active_of L (Subnet_V4 10 0 0) = 1"
proof -
  obtain r L where a: "acquire 5 (V4 10 0 0 1) (new_limiter 10 3000000000 2) = (r, L)"
    by (metis surj_pair)
  have r: "r = Ok (Subnet_V4 10 0 0)"
    using run_decides [OF limiter_run.start, where now = 5 and mr = 10 and w = 3000000000 and mc = 2 and ip = "V4 10 0 0 1"] a
    by (simp add: times_def)
  have "limiter_run (new_limiter 10 3000000000 2) 5 L {#Subnet_V4 10 0 0#} [(5, Subnet_V4 10 0 0)]"
    using limiter_run.admit [OF limiter_run.start _ a [unfolded r]] by simp
  with limiter_bounds [OF this, of 0 "Subnet_V4 10 0 0"] show ?thesis by auto
qed

end
