(* ===== verification/System.thy ===== *)
theory System
  imports Rust_Str World Config
begin

text \<open>
  The system environment of \<open>src/system.rs\<close>: the mounts of \<open>prepare_system_env\<close>, the kernel hardening,
  the network interfaces, the check for a default route and \<open>lockdown_filesystem\<close>.

  The mount table is read off the trace: a mount point has the flags of its last successful mount, the
  root file system is mounted from the start, and a file has the flags of the mount point above it.
  The lemmas show what the mounts are after the preparation and after the lockdown, and that a
  failure of an essential step powers the machine off.
\<close>

section \<open>Mounts\<close>

definition MS_RDONLY :: u64 where "MS_RDONLY = 1"
definition MS_NOSUID :: u64 where "MS_NOSUID = 2"
definition MS_NODEV :: u64 where "MS_NODEV = 4"
definition MS_NOEXEC :: u64 where "MS_NOEXEC = 8"
definition MS_REMOUNT :: u64 where "MS_REMOUNT = 32"

lemmas ms_defs = MS_RDONLY_def MS_NOSUID_def MS_NODEV_def MS_NOEXEC_def MS_REMOUNT_def

definition mount :: "bytes option \<Rightarrow> bytes \<Rightarrow> bytes option \<Rightarrow> u64 \<Rightarrow> bytes option \<Rightarrow> ('e, bool) io" where
  "mount src target fstype flags options =
     call (Mount src target fstype flags options) (\<lambda>E. mount_ok (os E))"

text \<open>\<open>mount(..).unwrap_or_else(|e| panic_shutdown(..))\<close>.\<close>

definition must_mount ::
  "fatal \<Rightarrow> bytes option \<Rightarrow> bytes \<Rightarrow> bytes option \<Rightarrow> u64 \<Rightarrow> bytes option \<Rightarrow> ('e, unit) io" where
  "must_mount why src target fstype flags options =
     bind (mount src target fstype flags options) (\<lambda>ok. or_shutdown why ok)"

section \<open>Kernel hardening\<close>

definition sysctl :: "string \<Rightarrow> string \<Rightarrow> bytes \<times> bytes" where
  "sysctl path val = (lit path, lit val)"

definition sysctls :: "(bytes \<times> bytes) list" where
  "sysctls =
    [sysctl ''/proc/sys/net/ipv4/conf/all/rp_filter'' ''1'',
     sysctl ''/proc/sys/net/ipv4/conf/default/rp_filter'' ''1'',
     sysctl ''/proc/sys/net/ipv4/conf/all/accept_redirects'' ''0'',
     sysctl ''/proc/sys/net/ipv4/conf/default/accept_redirects'' ''0'',
     sysctl ''/proc/sys/net/ipv4/conf/all/send_redirects'' ''0'',
     sysctl ''/proc/sys/net/ipv4/conf/default/send_redirects'' ''0'',
     sysctl ''/proc/sys/net/ipv4/conf/all/secure_redirects'' ''0'',
     sysctl ''/proc/sys/net/ipv4/conf/default/secure_redirects'' ''0'',
     sysctl ''/proc/sys/net/ipv4/icmp_echo_ignore_broadcasts'' ''1'',
     sysctl ''/proc/sys/net/ipv4/icmp_ignore_bogus_error_responses'' ''1'',
     sysctl ''/proc/sys/net/ipv4/tcp_syncookies'' ''1'',
     sysctl ''/proc/sys/net/ipv4/tcp_rfc1337'' ''1'',
     sysctl ''/proc/sys/kernel/kptr_restrict'' ''2'',
     sysctl ''/proc/sys/kernel/dmesg_restrict'' ''1'',
     sysctl ''/proc/sys/kernel/unprivileged_bpf_disabled'' ''1'',
     sysctl ''/proc/sys/vm/unprivileged_userfaultfd'' ''0'',
     sysctl ''/proc/sys/kernel/yama/ptrace_scope'' ''3'',
     sysctl ''/proc/sys/kernel/kexec_load_disabled'' ''1'',
     sysctl ''/proc/sys/kernel/perf_event_paranoid'' ''3'',
     sysctl ''/proc/sys/fs/protected_symlinks'' ''1'',
     sysctl ''/proc/sys/fs/protected_hardlinks'' ''1'',
     sysctl ''/proc/sys/fs/protected_fifos'' ''2'',
     sysctl ''/proc/sys/fs/protected_regular'' ''2'',
     sysctl ''/proc/sys/net/core/somaxconn'' ''8192'',
     sysctl ''/proc/sys/net/core/netdev_max_backlog'' ''16384'',
     sysctl ''/proc/sys/net/ipv4/tcp_max_syn_backlog'' ''8192'',
     sysctl ''/proc/sys/net/ipv4/tcp_synack_retries'' ''2'',
     sysctl ''/proc/sys/net/ipv4/tcp_fin_timeout'' ''10'',
     sysctl ''/proc/sys/net/ipv4/tcp_keepalive_time'' ''60'',
     sysctl ''/proc/sys/net/ipv4/tcp_keepalive_intvl'' ''10'',
     sysctl ''/proc/sys/net/ipv4/tcp_keepalive_probes'' ''6'',
     sysctl ''/proc/sys/net/ipv4/tcp_max_orphans'' ''16384'',
     sysctl ''/proc/sys/net/ipv4/tcp_tw_reuse'' ''1'',
     sysctl ''/proc/sys/net/ipv4/icmp_echo_ignore_all'' ''1'']"

text \<open>The loop: a failed write is only reported.\<close>

fun write_sysctls :: "(bytes \<times> bytes) list \<Rightarrow> ('e, unit) io" where
  "write_sysctls [] = return ()"
| "write_sysctls ((path, val) # rest) =
     bind (call (Write_File path val) (\<lambda>E. fs_ok (os E))) (\<lambda>_. write_sysctls rest)"

definition apply_kernel_hardening :: "('e, unit) io" where
  "apply_kernel_hardening = write_sysctls sysctls"

section \<open>Network interfaces\<close>

definition SIOCSIFADDR :: u64 where "SIOCSIFADDR = 0x8916"
definition SIOCSIFNETMASK :: u64 where "SIOCSIFNETMASK = 0x891C"
definition SIOCGIFFLAGS :: u64 where "SIOCGIFFLAGS = 0x8913"
definition SIOCSIFFLAGS :: u64 where "SIOCSIFFLAGS = 0x8914"
definition IFF_UP :: u16 where "IFF_UP = 0x1"
definition IFF_RUNNING :: u16 where "IFF_RUNNING = 0x40"

datatype net_error = Socket_Failed | Ioctl_Failed u64

text \<open>\<open>buf[i..i + n].copy_from_slice(xs)\<close> for \<open>xs\<close> of \<open>n\<close> bytes within the buffer.\<close>

definition put :: "nat \<Rightarrow> bytes \<Rightarrow> bytes \<Rightarrow> bytes" where
  "put i xs buf = take i buf @ xs @ drop (i + length xs) buf"

text \<open>
  One \<open>ioctl\<close> on the request buffer, which the kernel may write to; when it fails the socket is
  closed and the error returned.
\<close>

definition ioctl :: "u64 \<Rightarrow> bytes \<Rightarrow> (net_error, bytes) io" where
  "ioctl request ifr =
     bind (call (Ioctl request ifr)
       (\<lambda>E t. if ioctl_ok (os E) t then Some (map (ioctl_out (os E) t ifr) [0..<length ifr]) else None))
     (\<lambda>r. case r of
        Some ifr' \<Rightarrow> return ifr'
      | None \<Rightarrow> bind (emit Socket_Close) (\<lambda>_. fail (Ioctl_Failed request)))"

definition open_socket :: "(net_error, unit) io" where
  "open_socket =
     bind (call Socket_Open (\<lambda>E. socket_ok (os E))) (\<lambda>ok. require Socket_Failed ok)"

text \<open>The interface flags in a request, an \<open>i16\<close> in native (little-endian) order at offset 16.\<close>

definition get_flags :: "bytes \<Rightarrow> u16" where
  "get_flags ifr = of_nat (le_nat (take 2 (drop 16 ifr)))"

definition set_flags :: "u16 \<Rightarrow> bytes \<Rightarrow> bytes" where
  "set_flags flags ifr = put 16 (to_le 2 (unat flags)) ifr"

text \<open>The \<open>sockaddr_in\<close> of an address: family \<open>AF_INET\<close>, port 0, address, zeros.\<close>

definition sockaddr_in :: "bytes \<Rightarrow> bytes" where
  "sockaddr_in addr = put 4 addr (put 0 [2, 0] (replicate 16 0))"

definition configure_loopback :: "(net_error, unit) io" where
  "configure_loopback =
     bind open_socket (\<lambda>_.
     let ifr0 = put 0 (lit ''lo'') (replicate 40 0) in
     bind (ioctl SIOCSIFADDR (put 16 (sockaddr_in [127, 0, 0, 1]) ifr0)) (\<lambda>ifr1.
     bind (ioctl SIOCSIFNETMASK (put 16 (sockaddr_in [255, 0, 0, 0]) ifr1)) (\<lambda>ifr2.
     bind (ioctl SIOCGIFFLAGS (put 16 (replicate 24 0) ifr2)) (\<lambda>ifr3.
     bind (ioctl SIOCSIFFLAGS (set_flags (get_flags ifr3 OR IFF_UP OR IFF_RUNNING) ifr3)) (\<lambda>_.
     emit Socket_Close)))))"

text \<open>The result says whether the interface was down.\<close>

definition ensure_interface_up :: "bytes \<Rightarrow> (net_error, bool) io" where
  "ensure_interface_up name =
     bind open_socket (\<lambda>_.
     bind (ioctl SIOCGIFFLAGS (put 0 (take (min (length name) 15) name) (replicate 40 0))) (\<lambda>ifr.
     if get_flags ifr AND IFF_UP \<noteq> 0 then bind (emit Socket_Close) (\<lambda>_. return False)
     else
       bind (ioctl SIOCSIFFLAGS (set_flags (get_flags ifr OR IFF_UP) ifr)) (\<lambda>_.
       bind (emit Socket_Close) (\<lambda>_. return True))))"

text \<open>The loop over the entries of \<open>/sys/class/net\<close> that could be read; errors are reported only.\<close>

fun bring_up :: "bytes option list \<Rightarrow> ('e, unit) io" where
  "bring_up [] = return ()"
| "bring_up (None # entries) = bring_up entries"
| "bring_up (Some file_name # entries) =
     (let name = from_utf8_lossy file_name in
      if name = lit ''lo'' then bring_up entries
      else on_result (ensure_interface_up name) (\<lambda>_. bring_up entries) (\<lambda>_. bring_up entries))"

definition init_networking :: "('e, unit) io" where
  "init_networking =
     bind (on_result configure_loopback (\<lambda>_. return ()) (\<lambda>_. return ())) (\<lambda>_.
     bind (call (Read_Dir (lit ''/sys/class/net'')) (\<lambda>E. read_dir (os E))) (\<lambda>entries.
     case entries of None \<Rightarrow> return () | Some es \<Rightarrow> bring_up es))"

section \<open>The preparation\<close>

definition nosuid_nodev_noexec :: u64 where
  "nosuid_nodev_noexec = MS_NOSUID OR MS_NODEV OR MS_NOEXEC"

definition tmp_options :: bytes where "tmp_options = lit ''size=64m,mode=1700''"
definition run_options :: bytes where "run_options = lit ''size=16m,mode=0755''"
definition payload_options :: bytes where "payload_options = lit ''size=256m,mode=0755''"

definition prepare_system_env :: "('e, unit) io" where
  "prepare_system_env =
     bind (must_mount (Mount_Failed (lit ''/proc'')) (Some (lit ''proc'')) (lit ''/proc'')
       (Some (lit ''proc'')) nosuid_nodev_noexec None) (\<lambda>_.
     bind (must_mount (Mount_Failed (lit ''/sys'')) (Some (lit ''sysfs'')) (lit ''/sys'')
       (Some (lit ''sysfs'')) nosuid_nodev_noexec None) (\<lambda>_.
     bind (must_mount (Mount_Failed (lit ''/dev'')) (Some (lit ''devtmpfs'')) (lit ''/dev'')
       (Some (lit ''devtmpfs'')) MS_NOSUID None) (\<lambda>_.
     bind (call (Create_Dir (lit ''/dev/pts'')) (\<lambda>E. fs_ok (os E))) (\<lambda>_.
     bind (mount (Some (lit ''devpts'')) (lit ''/dev/pts'') (Some (lit ''devpts'')) 0 None) (\<lambda>_.
     bind (must_mount (Mount_Failed (lit ''/tmp'')) (Some (lit ''tmpfs'')) (lit ''/tmp'')
       (Some (lit ''tmpfs'')) (MS_NOSUID OR MS_NODEV OR MS_NOEXEC) (Some tmp_options)) (\<lambda>_.
     bind (call (Create_Dir_All (lit ''/run'')) (\<lambda>E. fs_ok (os E))) (\<lambda>_.
     bind (must_mount (Mount_Failed (lit ''/run'')) (Some (lit ''tmpfs'')) (lit ''/run'')
       (Some (lit ''tmpfs'')) (MS_NOSUID OR MS_NODEV OR MS_NOEXEC) (Some run_options)) (\<lambda>_.
     bind (call (Create_Dir_All PAYLOAD_DIR) (\<lambda>E. fs_ok (os E))) (\<lambda>created.
     bind (or_shutdown (Create_Dir_Failed PAYLOAD_DIR) created) (\<lambda>_.
     bind (must_mount (Mount_Failed PAYLOAD_DIR) (Some (lit ''tmpfs'')) PAYLOAD_DIR
       (Some (lit ''tmpfs'')) (MS_NOSUID OR MS_NODEV) (Some payload_options)) (\<lambda>_.
     bind init_networking (\<lambda>_.
     apply_kernel_hardening))))))))))))"

text \<open>
  Whether \<open>/proc/net/route\<close> has a route to \<open>00000000\<close> after its heading line; a text that cannot be
  read has none. The code only prints a warning then.
\<close>

definition is_default_route :: "bytes \<Rightarrow> bool" where
  "is_default_route line =
     (case split_whitespace line of _ # dest # _ \<Rightarrow> dest = lit ''00000000'' | _ \<Rightarrow> False)"

definition has_default_route :: "bytes option \<Rightarrow> bool" where
  "has_default_route routes =
     (case routes of None \<Rightarrow> False | Some text \<Rightarrow> list_ex is_default_route (drop 1 (str_lines text)))"

definition check_network_ready :: "('e, bool) io" where
  "check_network_ready =
     bind (call (Read_Text (lit ''/proc/net/route'')) (\<lambda>E. read_text (os E))) (\<lambda>routes.
     return (has_default_route routes))"

section \<open>The lockdown\<close>

definition lockdown_filesystem :: "('e, unit) io" where
  "lockdown_filesystem =
     bind (must_mount (Lockdown_Failed PAYLOAD_DIR) None PAYLOAD_DIR None
       (MS_REMOUNT OR MS_RDONLY OR MS_NOSUID OR MS_NODEV) None) (\<lambda>_.
     bind (must_mount (Lockdown_Failed (lit ''/tmp'')) None (lit ''/tmp'') None
       (MS_REMOUNT OR MS_NOSUID OR MS_NODEV OR MS_NOEXEC) (Some tmp_options)) (\<lambda>_.
     must_mount (Lockdown_Failed (lit ''/run'')) None (lit ''/run'') None
       (MS_REMOUNT OR MS_NOSUID OR MS_NODEV OR MS_NOEXEC) (Some run_options)))"

section \<open>The mount table\<close>

text \<open>
  The flags of a mount point: those of its last successful mount or remount. PID 1 starts in the root
  file system of its initramfs, which is mounted with no flags.
\<close>

fun mount_flags :: "env \<Rightarrow> trace \<Rightarrow> bytes \<Rightarrow> u64 option" where
  "mount_flags E [] path = (if path = lit ''/'' then Some 0 else None)"
| "mount_flags E (ev # t) path =
     (case ev of
        Mount src target fstype flags options \<Rightarrow>
          if target = path \<and> mount_ok (os E) t then Some flags else mount_flags E t path
      | _ \<Rightarrow> mount_flags E t path)"

definition has_flag :: "u64 \<Rightarrow> u64 option \<Rightarrow> bool" where
  "has_flag f m \<longleftrightarrow> (case m of None \<Rightarrow> False | Some flags \<Rightarrow> flags AND f = f)"

lemma must_mount_eq:
  "must_mount why src target fstype flags options E t =
     (if mount_ok (os E) t then (Ok (), Mount src target fstype flags options # t)
      else panic_shutdown why E (Mount src target fstype flags options # t))"
  by (simp add: must_mount_def mount_def or_shutdown_def)

lemma must_mount_Ok_iff:
  "must_mount why src target fstype flags options E t = (Ok u, t') \<longleftrightarrow>
     mount_ok (os E) t \<and> t' = Mount src target fstype flags options # t"
  by (auto simp: must_mount_eq)

text \<open>Events that are no mounts leave the table alone.\<close>

definition no_mount :: "event \<Rightarrow> bool" where
  "no_mount ev \<longleftrightarrow> (case ev of Mount _ _ _ _ _ \<Rightarrow> False | _ \<Rightarrow> True)"

lemma mount_flags_no_mounts:
  "\<forall>ev\<in>set p. no_mount ev \<Longrightarrow> mount_flags E (p @ t) path = mount_flags E t path"
proof (induction p)
  case (Cons ev p)
  then show ?case by (cases ev) (simp_all add: no_mount_def)
qed simp

section \<open>The kinds of events\<close>

definition net_setup_event :: "event \<Rightarrow> bool" where
  "net_setup_event ev \<longleftrightarrow>
     (case ev of Socket_Open \<Rightarrow> True | Socket_Close \<Rightarrow> True | Ioctl _ _ \<Rightarrow> True | Read_Dir _ \<Rightarrow> True
      | Read_Text _ \<Rightarrow> True | _ \<Rightarrow> False)"

lemma ioctl_emits [emits_intro]: "emits E net_setup_event (ioctl request ifr)"
  unfolding ioctl_def by (intro emits_intro) (simp_all add: net_setup_event_def)

lemma open_socket_emits [emits_intro]: "emits E net_setup_event open_socket"
  unfolding open_socket_def by (intro emits_intro) (simp_all add: net_setup_event_def)

lemma configure_loopback_emits [emits_intro]: "emits E net_setup_event configure_loopback"
  unfolding configure_loopback_def Let_def by (intro emits_intro) (simp_all add: net_setup_event_def)

lemma ensure_interface_up_emits [emits_intro]: "emits E net_setup_event (ensure_interface_up name)"
  unfolding ensure_interface_up_def by (intro emits_intro) (simp_all add: net_setup_event_def)

text \<open>The loop body preserves what its interfaces satisfy.\<close>

lemma bring_up_Some:
  "bring_up (Some file_name # entries) =
     (if from_utf8_lossy file_name = lit ''lo'' then bring_up entries
      else on_result (ensure_interface_up (from_utf8_lossy file_name))
        (\<lambda>_. bring_up entries) (\<lambda>_. bring_up entries))"
  by (simp add: Let_def)

lemma bring_up_emits [emits_intro]: "emits E net_setup_event (bring_up entries)"
proof (induction entries)
  case (Cons entry entries)
  then show ?case
    by (cases entry) (simp, simp only: bring_up_Some, intro emits_intro, simp_all)
qed (simp add: emits_def)

lemma init_networking_emits [emits_intro]: "emits E net_setup_event init_networking"
  unfolding init_networking_def by (intro emits_intro) (simp_all add: net_setup_event_def)

lemma check_network_ready_emits [emits_intro]: "emits E net_setup_event check_network_ready"
  unfolding check_network_ready_def by (intro emits_intro) (simp_all add: net_setup_event_def)

text \<open>The hardening writes the listed values and nothing else.\<close>

definition sysctl_event :: "event \<Rightarrow> bool" where
  "sysctl_event ev \<longleftrightarrow> (case ev of Write_File path val \<Rightarrow> (path, val) \<in> set sysctls | _ \<Rightarrow> False)"

lemma write_sysctls_eq:
  "write_sysctls ps E t = (Ok (), rev (map (\<lambda>(path, val). Write_File path val) ps) @ t)"
  by (induction ps arbitrary: t) auto

lemma apply_kernel_hardening_emits [emits_intro]: "emits E sysctl_event apply_kernel_hardening"
  unfolding emits_def apply_kernel_hardening_def write_sysctls_eq
  by (auto simp: sysctl_event_def intro!: exI [of _ "rev (map (\<lambda>(path, val). Write_File path val) sysctls)"])

section \<open>Running the steps\<close>

lemma ioctl_safe [safe_intro]: "safe E (ioctl request ifr)"
  unfolding ioctl_def by (intro safe_intro) simp_all

lemma open_socket_safe [safe_intro]: "safe E open_socket"
  unfolding open_socket_def by (intro safe_intro)

lemma configure_loopback_safe [safe_intro]: "safe E configure_loopback"
  unfolding configure_loopback_def Let_def by (intro safe_intro)

lemma ensure_interface_up_safe [safe_intro]: "safe E (ensure_interface_up name)"
  unfolding ensure_interface_up_def by (intro safe_intro) simp_all

lemma bring_up_completes [completes_intro]: "completes E (bring_up entries)"
proof (induction entries)
  case (Cons entry entries)
  then show ?case
    by (cases entry)
      (simp, simp only: bring_up_Some, intro completes_intro completes_on_result safe_intro, simp_all)
qed (simp add: completes_def)

lemma init_networking_completes [completes_intro]: "completes E init_networking"
  unfolding init_networking_def by (intro completes_intro completes_on_result safe_intro)

lemma apply_kernel_hardening_completes [completes_intro]: "completes E apply_kernel_hardening"
  by (simp add: completes_def apply_kernel_hardening_def write_sysctls_eq)

lemma must_mount_fail_closed [fail_closed_intro]:
  "fail_closed E (must_mount why src target fstype flags options)"
  unfolding must_mount_def mount_def by (intro fail_closed_intro)

lemma prepare_system_env_fail_closed [fail_closed_intro]: "fail_closed E prepare_system_env"
  unfolding prepare_system_env_def mount_def
  by (intro fail_closed_intro completes_fail_closed completes_intro)

lemma lockdown_filesystem_fail_closed [fail_closed_intro]: "fail_closed E lockdown_filesystem"
  unfolding lockdown_filesystem_def by (intro fail_closed_intro)

text \<open>When mounts and files work, both complete.\<close>

lemma must_mount_completes:
  "\<forall>t. mount_ok (os E) t \<Longrightarrow> completes E (must_mount why src target fstype flags options)"
  unfolding must_mount_def mount_def by (rule completes_call_bind) (simp add: completes_intro)

lemma prepare_system_env_completes:
  assumes "\<forall>t. mount_ok (os E) t" and "\<forall>t. fs_ok (os E) t"
  shows "completes E prepare_system_env"
proof -
  have dir: "completes E (bind (call ev (\<lambda>E. fs_ok (os E))) f)" if "completes E (f True)" for ev and f :: "bool \<Rightarrow> ('e, unit) io"
    by (rule completes_call_bind) (simp add: that assms)
  show ?thesis
    unfolding prepare_system_env_def mount_def
    by (intro dir completes_bind must_mount_completes [OF assms(1)] completes_intro) simp
qed

lemma lockdown_filesystem_completes:
  assumes "\<forall>t. mount_ok (os E) t"
  shows "completes E lockdown_filesystem"
  unfolding lockdown_filesystem_def by (intro completes_bind must_mount_completes [OF assms])

section \<open>The mounts after the preparation and the lockdown\<close>

lemma net_setup_no_mount: "net_setup_event ev \<Longrightarrow> no_mount ev"
  by (cases ev) (simp_all add: net_setup_event_def no_mount_def)

lemma sysctl_no_mount: "sysctl_event ev \<Longrightarrow> no_mount ev"
  by (cases ev) (simp_all add: sysctl_event_def no_mount_def)

lemma mount_flags_after:
  assumes "emits E no_mount m" and "m E t = (r, t')"
  shows "mount_flags E t' path = mount_flags E t path"
  using assms by (metis emitsD mount_flags_no_mounts)

lemma init_networking_mount_flags:
  "init_networking E t = (r, t') \<Longrightarrow> mount_flags E t' path = mount_flags E t path"
  by (rule mount_flags_after [OF emits_weaken [OF init_networking_emits net_setup_no_mount]])

lemma apply_kernel_hardening_mount_flags:
  "apply_kernel_hardening E t = (r, t') \<Longrightarrow> mount_flags E t' path = mount_flags E t path"
  by (rule mount_flags_after [OF emits_weaken [OF apply_kernel_hardening_emits sysctl_no_mount]])

definition prepared :: "bytes \<Rightarrow> u64 option" where
  "prepared path =
     (if path = lit ''/proc'' \<or> path = lit ''/sys'' \<or> path = lit ''/tmp'' \<or> path = lit ''/run''
      then Some nosuid_nodev_noexec
      else if path = lit ''/dev'' then Some MS_NOSUID
      else if path = PAYLOAD_DIR then Some (MS_NOSUID OR MS_NODEV)
      else None)"

text \<open>The mounts of the preparation up to the network setup, oldest first.\<close>

definition mount_event :: "string \<Rightarrow> bytes \<Rightarrow> u64 \<Rightarrow> bytes option \<Rightarrow> event" where
  "mount_event fstype path flags options =
     Mount (Some (lit fstype)) path (Some (lit fstype)) flags options"

definition early_mounts :: trace where
  "early_mounts =
     [mount_event ''devtmpfs'' (lit ''/dev'') MS_NOSUID None,
      mount_event ''sysfs'' (lit ''/sys'') nosuid_nodev_noexec None,
      mount_event ''proc'' (lit ''/proc'') nosuid_nodev_noexec None]"

definition late_mounts :: trace where
  "late_mounts =
     [mount_event ''tmpfs'' PAYLOAD_DIR (MS_NOSUID OR MS_NODEV) (Some payload_options),
      Create_Dir_All PAYLOAD_DIR,
      mount_event ''tmpfs'' (lit ''/run'') nosuid_nodev_noexec (Some run_options),
      Create_Dir_All (lit ''/run''),
      mount_event ''tmpfs'' (lit ''/tmp'') nosuid_nodev_noexec (Some tmp_options)]"

definition pts_mount :: trace where
  "pts_mount = [mount_event ''devpts'' (lit ''/dev/pts'') 0 None, Create_Dir (lit ''/dev/pts'')]"

text \<open>Every mount of a list of events succeeds.\<close>

fun mounts_succeed :: "env \<Rightarrow> trace \<Rightarrow> trace \<Rightarrow> bool" where
  "mounts_succeed E [] t = True"
| "mounts_succeed E (ev # p) t \<longleftrightarrow>
     mounts_succeed E p t \<and> (no_mount ev \<or> mount_ok (os E) (p @ t))"

lemma no_mount_simps [simp]:
  "\<not> no_mount (Mount src target fstype flags options)" "no_mount (Create_Dir path)"
  "no_mount (Create_Dir_All path)"
  by (simp_all add: no_mount_def)

lemma prepare_system_env_trace:
  assumes "prepare_system_env E t = (Ok u :: ('e, unit) result, t')"
  obtains p where "t' = p @ late_mounts @ pts_mount @ early_mounts @ t" and "\<forall>ev\<in>set p. no_mount ev"
    and "mounts_succeed E early_mounts t"
    and "mounts_succeed E late_mounts (pts_mount @ early_mounts @ t)"
proof -
  let ?t0 = "late_mounts @ pts_mount @ early_mounts @ t"
  have rest: "bind init_networking (\<lambda>_. apply_kernel_hardening) E ?t0 =
      (Ok u :: ('e, unit) result, t')"
    and ok: "mounts_succeed E early_mounts t"
      "mounts_succeed E late_mounts (pts_mount @ early_mounts @ t)"
    using assms unfolding prepare_system_env_def
    by (auto simp: bind_Ok_iff must_mount_Ok_iff mount_def or_shutdown_eq early_mounts_def
        pts_mount_def late_mounts_def mount_event_def nosuid_nodev_noexec_def split: if_split_asm)
  have "emits E no_mount (bind init_networking (\<lambda>_. apply_kernel_hardening :: ('e, unit) io))"
    by (intro emits_bind emits_weaken [OF init_networking_emits net_setup_no_mount]
        emits_weaken [OF apply_kernel_hardening_emits sysctl_no_mount])
  then obtain p where "t' = p @ ?t0" "\<forall>ev\<in>set p. no_mount ev"
    using rest by (rule emitsD)
  then show ?thesis using ok by (rule that)
qed

definition locked :: "bytes \<Rightarrow> u64 option" where
  "locked path =
     (if path = PAYLOAD_DIR then Some (MS_REMOUNT OR MS_RDONLY OR MS_NOSUID OR MS_NODEV)
      else if path = lit ''/tmp'' \<or> path = lit ''/run''
      then Some (MS_REMOUNT OR MS_NOSUID OR MS_NODEV OR MS_NOEXEC)
      else None)"

lemma lockdown_filesystem_mounts:
  assumes "lockdown_filesystem E t = (Ok u, t')"
  shows "mount_flags E t' path = (case locked path of None \<Rightarrow> mount_flags E t path | Some m \<Rightarrow> Some m)"
  using assms
  by (auto simp: lockdown_filesystem_def bind_Ok_iff must_mount_Ok_iff locked_def PAYLOAD_DIR_def)

text \<open>
  The flags that hold for a file: those of the longest mount point that is the file's path or a
  directory above it. Paths are absolute and have no dots and no links.
\<close>

definition under :: "bytes \<Rightarrow> bytes \<Rightarrow> bool" where
  "under dir path \<longleftrightarrow> path = dir \<or> starts_with path (if dir = lit ''/'' then dir else dir @ lit ''/'')"

definition flags_at :: "env \<Rightarrow> trace \<Rightarrow> bytes \<Rightarrow> u64 option" where
  "flags_at E t path =
     (case filter (\<lambda>dir. mount_flags E t dir \<noteq> None \<and> under dir path)
         (map (\<lambda>n. take n path) (rev [0..<Suc (length path)])) of
        [] \<Rightarrow> None
      | dir # _ \<Rightarrow> mount_flags E t dir)"

lemma under_prefix: "under dir path \<Longrightarrow> \<exists>rest. path = dir @ rest"
  by (auto simp: under_def starts_with_iff)

text \<open>It is the longest one.\<close>

lemma flags_at_longest:
  assumes "mount_flags E t dir \<noteq> None" and "under dir path"
    and "\<And>d. mount_flags E t d \<noteq> None \<Longrightarrow> under d path \<Longrightarrow> length d \<le> length dir"
  shows "flags_at E t path = mount_flags E t dir"
proof -
  let ?P = "\<lambda>d. mount_flags E t d \<noteq> None \<and> under d path"
  obtain rest where path: "path = dir @ rest" using under_prefix [OF assms(2)] by blast
  have "[0..<Suc (length path)] = [0..<length dir] @ length dir # [Suc (length dir)..<Suc (length path)]"
    using upt_add_eq_append [of 0 "length dir" "Suc (length rest)"] upt_conv_Cons [of "length dir" "Suc (length path)"]
    by (simp add: path)
  then have "map (\<lambda>n. take n path) (rev [0..<Suc (length path)]) =
      map (\<lambda>n. take n path) (rev [Suc (length dir)..<Suc (length path)]) @ dir #
      map (\<lambda>n. take n path) (rev [0..<length dir])"
    by (simp add: path del: upt_Suc)
  moreover have "filter ?P (map (\<lambda>n. take n path) (rev [Suc (length dir)..<Suc (length path)])) = []"
    using assms(3) by (fastforce simp: filter_empty_conv)
  ultimately show ?thesis
    using assms(1,2) by (simp add: flags_at_def)
qed

lemma flags_at_cases:
  obtains (mounted) dir where "mount_flags E t dir \<noteq> None" "under dir path" "flags_at E t path = mount_flags E t dir"
      "\<And>d. mount_flags E t d \<noteq> None \<Longrightarrow> under d path \<Longrightarrow> length d \<le> length dir"
    | (none) "\<And>d. under d path \<Longrightarrow> mount_flags E t d = None" "flags_at E t path = None"
proof (cases "\<exists>d. mount_flags E t d \<noteq> None \<and> under d path")
  case True
  then obtain d where "mount_flags E t d \<noteq> None \<and> under d path" by blast
  moreover have "\<forall>d. mount_flags E t d \<noteq> None \<and> under d path \<longrightarrow> length d < Suc (length path)"
    by (auto dest!: under_prefix)
  ultimately obtain dir where "mount_flags E t dir \<noteq> None \<and> under dir path"
    "\<forall>d. mount_flags E t d \<noteq> None \<and> under d path \<longrightarrow> length d \<le> length dir"
    using ex_has_greatest_nat [of "\<lambda>d. mount_flags E t d \<noteq> None \<and> under d path" d length] by metis
  then show thesis using flags_at_longest mounted by metis
next
  case False
  then have "flags_at E t path = None"
    by (auto simp: flags_at_def filter_empty_conv split: list.split dest!: arg_cong [where f = set])
  with False none show thesis by blast
qed

text \<open>A file system from which a written file can be executed.\<close>

definition writable_executable :: "u64 option \<Rightarrow> bool" where
  "writable_executable m \<longleftrightarrow>
     (case m of None \<Rightarrow> False | Some flags \<Rightarrow> flags AND MS_RDONLY = 0 \<and> flags AND MS_NOEXEC = 0)"

text \<open>A list of events whose mounts succeed sets the flags of its latest mount of a path.\<close>

fun set_flags_of :: "trace \<Rightarrow> bytes \<Rightarrow> u64 option" where
  "set_flags_of [] path = None"
| "set_flags_of (Mount src target fstype flags options # p) path =
     (if target = path then Some flags else set_flags_of p path)"
| "set_flags_of (ev # p) path = set_flags_of p path"

lemma mount_flags_append:
  "mounts_succeed E p t \<Longrightarrow>
     mount_flags E (p @ t) path =
       (case set_flags_of p path of None \<Rightarrow> mount_flags E t path | Some m \<Rightarrow> Some m)"
  by (induction p path rule: set_flags_of.induct) (auto simp: no_mount_def)

lemma mount_flags_pts:
  "mount_flags E (pts_mount @ t) path =
     (if path = lit ''/dev/pts'' \<and> mount_ok (os E) (Create_Dir (lit ''/dev/pts'') # t) then Some 0
      else mount_flags E t path)"
  by (auto simp: pts_mount_def mount_event_def)

lemma prepare_system_env_flags:
  assumes "prepare_system_env E t = (Ok u :: ('e, unit) result, t')"
  shows "mount_flags E t' path =
     (case set_flags_of late_mounts path of Some m \<Rightarrow> Some m
      | None \<Rightarrow> mount_flags E (pts_mount @ early_mounts @ t) path)"
    and "mounts_succeed E early_mounts t"
proof -
  obtain p where p: "t' = p @ late_mounts @ pts_mount @ early_mounts @ t" "\<forall>ev\<in>set p. no_mount ev"
    "mounts_succeed E early_mounts t" "mounts_succeed E late_mounts (pts_mount @ early_mounts @ t)"
    using assms by (rule prepare_system_env_trace)
  show "mount_flags E t' path =
     (case set_flags_of late_mounts path of Some m \<Rightarrow> Some m
      | None \<Rightarrow> mount_flags E (pts_mount @ early_mounts @ t) path)"
    by (simp add: p mount_flags_no_mounts mount_flags_append split: option.split)
  show "mounts_succeed E early_mounts t" by (rule p)
qed

lemmas mount_points =
  early_mounts_def late_mounts_def mount_event_def nosuid_nodev_noexec_def PAYLOAD_DIR_def

lemma prepare_system_env_mounts:
  assumes "prepare_system_env E t = (Ok u :: ('e, unit) result, t')" and "path \<noteq> lit ''/dev/pts''"
  shows "mount_flags E t' path = (case prepared path of None \<Rightarrow> mount_flags E t path | Some m \<Rightarrow> Some m)"
  unfolding prepare_system_env_flags(1) [OF assms(1)] mount_flags_pts
    mount_flags_append [OF prepare_system_env_flags(2) [OF assms(1)]]
  using assms(2) by (simp add: prepared_def mount_points)

lemma prepare_system_env_devpts:
  assumes "prepare_system_env E t = (Ok u :: ('e, unit) result, t')"
  shows "mount_flags E t' (lit ''/dev/pts'') \<in> {Some 0, mount_flags E t (lit ''/dev/pts'')}"
  unfolding prepare_system_env_flags(1) [OF assms(1)] mount_flags_pts
    mount_flags_append [OF prepare_system_env_flags(2) [OF assms(1)]]
  by (simp add: mount_points)

text \<open>The mount points after the preparation and the lockdown.\<close>

definition final_mounts :: "bytes \<Rightarrow> u64 option" where
  "final_mounts path =
     (if path = lit ''/'' then Some 0
      else if path = lit ''/proc'' \<or> path = lit ''/sys'' then Some (MS_NOSUID OR MS_NODEV OR MS_NOEXEC)
      else if path = lit ''/dev'' then Some MS_NOSUID
      else if path = lit ''/tmp'' \<or> path = lit ''/run''
      then Some (MS_REMOUNT OR MS_NOSUID OR MS_NODEV OR MS_NOEXEC)
      else if path = PAYLOAD_DIR then Some (MS_REMOUNT OR MS_RDONLY OR MS_NOSUID OR MS_NODEV)
      else None)"

lemma no_mounts_initial: "\<forall>ev\<in>set t. no_mount ev \<Longrightarrow> mount_flags E t path = (if path = lit ''/'' then Some 0 else None)"
  using mount_flags_no_mounts [of t E "[]" path] by simp

lemma final_mount_flags:
  assumes "\<forall>ev\<in>set t. no_mount ev"
    and "prepare_system_env E t = (Ok u :: ('e, unit) result, t1)"
    and "\<forall>ev\<in>set p. no_mount ev"
    and "lockdown_filesystem E (p @ t1) = (Ok v :: ('e, unit) result, t2)"
  shows "path \<noteq> lit ''/dev/pts'' \<Longrightarrow> mount_flags E t2 path = final_mounts path"
    and "mount_flags E t2 (lit ''/dev/pts'') \<in> {Some 0, None}"
proof -
  have t2: "mount_flags E t2 path' =
      (case locked path' of None \<Rightarrow> mount_flags E t1 path' | Some m \<Rightarrow> Some m)" for path'
    unfolding lockdown_filesystem_mounts [OF assms(4)] mount_flags_no_mounts [OF assms(3)] ..
  show "mount_flags E t2 path = final_mounts path" if "path \<noteq> lit ''/dev/pts''"
    unfolding t2 prepare_system_env_mounts [OF assms(2) that] no_mounts_initial [OF assms(1)]
    by (simp add: final_mounts_def locked_def prepared_def PAYLOAD_DIR_def nosuid_nodev_noexec_def)
  show "mount_flags E t2 (lit ''/dev/pts'') \<in> {Some 0, None}"
    using prepare_system_env_devpts [OF assms(2)] unfolding t2 no_mounts_initial [OF assms(1)]
    by (simp add: locked_def PAYLOAD_DIR_def)
qed

lemma under_payload: "under PAYLOAD_DIR path \<Longrightarrow> under (lit ''/run'') path"
  by (auto simp: under_def starts_with_iff PAYLOAD_DIR_def)

lemma writable_executable_final:
  "writable_executable (final_mounts dir) \<longleftrightarrow> dir = lit ''/'' \<or> dir = lit ''/dev''"
  by (simp add: final_mounts_def writable_executable_def ms_defs PAYLOAD_DIR_def)

lemma final_mount_points:
  "final_mounts dir \<noteq> None \<Longrightarrow>
     dir \<in> {lit ''/'', lit ''/proc'', lit ''/sys'', lit ''/dev'', lit ''/tmp'', lit ''/run'', PAYLOAD_DIR}"
  by (auto simp: final_mounts_def split: if_splits)

text \<open>No path is below two of these.\<close>

lemma device_not_locked:
  assumes "under dir path" and "dir = lit ''/dev'' \<or> dir = lit ''/dev/pts''"
  shows "\<not> under (lit ''/proc'') path \<and> \<not> under (lit ''/sys'') path \<and> \<not> under (lit ''/tmp'') path \<and>
    \<not> under (lit ''/run'') path"
  using assms by (auto dest!: under_prefix)

text \<open>
  C35. After the preparation and the lockdown, with no mounts in between and none before but the root
  file system, the mount points and their flags are exactly these: \<open>/\<close> with none, \<open>/proc\<close> and \<open>/sys\<close>
  without set-uid, devices and execution, \<open>/dev\<close> without set-uid only, \<open>/tmp\<close> and \<open>/run\<close> remounted without
  execution, the payload directory remounted read-only, and \<open>/dev/pts\<close> with none if it could be mounted.
  So a file can be both written and executed, as far as its file system goes, exactly when it is not in
  \<open>/proc\<close>, \<open>/sys\<close>, \<open>/tmp\<close> or \<open>/run\<close>: the payload directory and the scratch directories are locked, the root file
  system and \<open>/dev\<close> are not.
\<close>

theorem locked_down_mounts:
  assumes "\<forall>ev\<in>set t. no_mount ev"
    and "prepare_system_env E t = (Ok u :: ('e, unit) result, t1)"
    and "\<forall>ev\<in>set p. no_mount ev"
    and "lockdown_filesystem E (p @ t1) = (Ok v :: ('e, unit) result, t2)"
  shows "(mount_flags E t2 path =
        (if path = lit ''/'' then Some 0
         else if path = lit ''/proc'' \<or> path = lit ''/sys'' then Some (MS_NOSUID OR MS_NODEV OR MS_NOEXEC)
         else if path = lit ''/dev'' then Some MS_NOSUID
         else if path = lit ''/tmp'' \<or> path = lit ''/run''
         then Some (MS_REMOUNT OR MS_NOSUID OR MS_NODEV OR MS_NOEXEC)
         else if path = PAYLOAD_DIR then Some (MS_REMOUNT OR MS_RDONLY OR MS_NOSUID OR MS_NODEV)
         else if path = lit ''/dev/pts'' \<and> mount_flags E t2 path \<noteq> None then Some 0
         else None)) \<and>
      (writable_executable (flags_at E t2 path) \<longleftrightarrow>
        starts_with path (lit ''/'') \<and> \<not> under (lit ''/proc'') path \<and> \<not> under (lit ''/sys'') path \<and>
        \<not> under (lit ''/tmp'') path \<and> \<not> under (lit ''/run'') path)"
proof
  note final = final_mount_flags [OF assms]
  show "mount_flags E t2 path =
        (if path = lit ''/'' then Some 0
         else if path = lit ''/proc'' \<or> path = lit ''/sys'' then Some (MS_NOSUID OR MS_NODEV OR MS_NOEXEC)
         else if path = lit ''/dev'' then Some MS_NOSUID
         else if path = lit ''/tmp'' \<or> path = lit ''/run''
         then Some (MS_REMOUNT OR MS_NOSUID OR MS_NODEV OR MS_NOEXEC)
         else if path = PAYLOAD_DIR then Some (MS_REMOUNT OR MS_RDONLY OR MS_NOSUID OR MS_NODEV)
         else if path = lit ''/dev/pts'' \<and> mount_flags E t2 path \<noteq> None then Some 0
         else None)"
  proof (cases "path = lit ''/dev/pts''")
    case True
    then show ?thesis using final(2) by (auto simp: PAYLOAD_DIR_def)
  next
    case False
    then show ?thesis unfolding final(1) [OF False] final_mounts_def by simp
  qed
  have tops: "mount_flags E t2 dir \<noteq> None" if "dir \<in> {lit ''/'', lit ''/proc'', lit ''/sys'', lit ''/tmp'', lit ''/run''}" for dir
    using that by (subst final(1)) (auto simp: final_mounts_def)
  show "writable_executable (flags_at E t2 path) \<longleftrightarrow>
        starts_with path (lit ''/'') \<and> \<not> under (lit ''/proc'') path \<and> \<not> under (lit ''/sys'') path \<and>
        \<not> under (lit ''/tmp'') path \<and> \<not> under (lit ''/run'') path"
  proof (cases rule: flags_at_cases [of E t2 path])
    case none
    then have "\<not> under (lit ''/'') path" using tops by blast
    with none(2) show ?thesis by (simp add: under_def writable_executable_def)
  next
    case (mounted dir)
    have longest: "length d \<le> length dir" if "under d path" "d \<in> {lit ''/'', lit ''/proc'', lit ''/sys'', lit ''/tmp'', lit ''/run''}" for d
      using mounted(4) [OF _ that(1)] tops that(2) by blast
    have abs: "starts_with path (lit ''/'')" if "starts_with dir (lit ''/'')"
      using under_prefix [OF mounted(2)] that by (auto simp: starts_with_iff)
    consider (dev) "dir = lit ''/dev'' \<or> dir = lit ''/dev/pts''" | (root) "dir = lit ''/''"
      | (locked) "dir \<in> {lit ''/proc'', lit ''/sys'', lit ''/tmp'', lit ''/run'', PAYLOAD_DIR}"
      using mounted(1) final(1) [of dir] final_mount_points [of dir] by (cases "dir = lit ''/dev/pts''") auto
    then show ?thesis
    proof cases
      case dev
      then have "mount_flags E t2 dir = Some MS_NOSUID \<or> mount_flags E t2 dir = Some 0"
        using final mounted(1) by (auto simp: final_mounts_def)
      then have "writable_executable (flags_at E t2 path)"
        unfolding mounted(3) by (auto simp: writable_executable_def ms_defs)
      moreover have "starts_with path (lit ''/'')" using dev abs by (auto simp: starts_with_def)
      ultimately show ?thesis using device_not_locked [OF mounted(2) dev] by blast
    next
      case root
      have "\<not> under d path" if "d \<in> {lit ''/proc'', lit ''/sys'', lit ''/tmp'', lit ''/run''}" for d
        using longest [of d] that root by auto
      moreover have "writable_executable (flags_at E t2 path)"
        unfolding mounted(3) root by (subst final(1)) (simp_all add: final_mounts_def writable_executable_def)
      moreover have "starts_with path (lit ''/'')" using root abs by (auto simp: starts_with_def)
      ultimately show ?thesis by blast
    next
      case locked
      have "\<not> writable_executable (flags_at E t2 path)"
        unfolding mounted(3) using locked
        by (subst final(1)) (auto simp: PAYLOAD_DIR_def writable_executable_final)
      moreover have "under (lit ''/proc'') path \<or> under (lit ''/sys'') path \<or> under (lit ''/tmp'') path \<or>
          under (lit ''/run'') path"
        using locked mounted(2) under_payload by blast
      ultimately show ?thesis by blast
    qed
  qed
qed

section \<open>Interface requests\<close>

lemma put_length: "i + length xs \<le> length buf \<Longrightarrow> length (put i xs buf) = length buf"
  by (simp add: put_def)

lemma put_nth_other:
  assumes "i + length xs \<le> length buf" and "k < i \<or> i + length xs \<le> k" and "k < length buf"
  shows "put i xs buf ! k = buf ! k"
  using assms by (auto simp: put_def nth_append)

lemma unat_of_nat_u16_id: "of_nat (unat f mod 65536) = (f :: u16)"
  using unsigned_less [of f, where 'a = nat] by simp

lemma get_set_flags:
  assumes "18 \<le> length ifr"
  shows "get_flags (set_flags f ifr) = f"
proof -
  have "take 2 (drop 16 (set_flags f ifr)) = to_le 2 (unat f)"
    using assms by (simp add: set_flags_def put_def)
  then show ?thesis
    by (simp add: get_flags_def le_nat_to_le unat_of_nat_u16_id)
qed

lemma set_flags_nth: "18 \<le> length ifr \<Longrightarrow> k < length ifr \<Longrightarrow> k < 16 \<or> 18 \<le> k \<Longrightarrow> set_flags f ifr ! k = ifr ! k"
  unfolding set_flags_def by (rule put_nth_other) auto

text \<open>The answer of the kernel to a request.\<close>

definition ioctl_answer :: "env \<Rightarrow> trace \<Rightarrow> bytes \<Rightarrow> bytes" where
  "ioctl_answer E t ifr = map (ioctl_out (os E) t ifr) [0..<length ifr]"

lemma length_ioctl_answer [simp]: "length (ioctl_answer E t ifr) = length ifr"
  by (simp add: ioctl_answer_def)

lemma ioctl_eq:
  "ioctl request ifr E t =
     (if ioctl_ok (os E) t then (Ok (ioctl_answer E t ifr), Ioctl request ifr # t)
      else (Err (Ioctl_Failed request), Socket_Close # Ioctl request ifr # t))"
  by (simp add: ioctl_def ioctl_answer_def)

lemma open_socket_eq:
  "open_socket E t =
     (if socket_ok (os E) t then (Ok (), Socket_Open # t) else (Err Socket_Failed, Socket_Open # t))"
  by (simp add: open_socket_def)

definition flags_request :: "bytes \<Rightarrow> bytes" where
  "flags_request name = put 0 (take (min (length name) 15) name) (replicate 40 0)"

lemma length_flags_request [simp]: "length (flags_request name) = 40"
  by (simp add: flags_request_def put_length)

lemma ensure_interface_up_eq:
  "ensure_interface_up name E t =
     (let t1 = Socket_Open # t; t2 = Ioctl SIOCGIFFLAGS (flags_request name) # t1;
          ifr = ioctl_answer E t1 (flags_request name);
          ifr' = set_flags (get_flags ifr OR IFF_UP) ifr;
          t3 = Ioctl SIOCSIFFLAGS ifr' # t2
      in if \<not> socket_ok (os E) t then (Err Socket_Failed, t1)
         else if \<not> ioctl_ok (os E) t1 then (Err (Ioctl_Failed SIOCGIFFLAGS), Socket_Close # t2)
         else if get_flags ifr AND IFF_UP \<noteq> 0 then (Ok False, Socket_Close # t2)
         else if \<not> ioctl_ok (os E) t2 then (Err (Ioctl_Failed SIOCSIFFLAGS), Socket_Close # t3)
         else (Ok True, Socket_Close # t3))"
  by (simp add: ensure_interface_up_def bind_eq ioctl_eq open_socket_eq flags_request_def [symmetric] Let_def)

text \<open>
  C36. Bringing an interface up asks the kernel for its flags first. It reports that the interface was
  up only when the kernel said so, and then changes nothing; it reports that the interface was
  down only after the kernel accepted flags in which the bit \<open>IFF_UP\<close> is set, every other bit and
  every other byte of the request being what the kernel had answered. The socket is closed on every
  path.
\<close>

theorem interface_brought_up:
  assumes "ensure_interface_up name E t = (r, t')"
  shows "\<exists>reqs. t' = (if socket_ok (os E) t then Socket_Close # reqs @ Socket_Open # t else Socket_Open # t) \<and>
     (let ifr = ioctl_answer E (Socket_Open # t) (flags_request name)
      in (r = Ok False \<longrightarrow> reqs = [Ioctl SIOCGIFFLAGS (flags_request name)] \<and> bit (get_flags ifr) 0) \<and>
         (r = Ok True \<longrightarrow>
           (\<exists>req. reqs = [Ioctl SIOCSIFFLAGS req, Ioctl SIOCGIFFLAGS (flags_request name)] \<and>
              ioctl_ok (os E) (Ioctl SIOCGIFFLAGS (flags_request name) # Socket_Open # t) \<and>
              bit (get_flags req) 0 \<and> \<not> bit (get_flags ifr) 0 \<and>
              (\<forall>i. i \<noteq> 0 \<longrightarrow> bit (get_flags req) i = bit (get_flags ifr) i) \<and>
              (\<forall>k<40. k < 16 \<or> 18 \<le> k \<longrightarrow> req ! k = ifr ! k))))"
proof -
  let ?ifr = "ioctl_answer E (Socket_Open # t) (flags_request name)"
  have up: "(x AND IFF_UP \<noteq> 0) = bit x 0" for x :: u16
    by (simp add: IFF_UP_def and_one_eq odd_iff_mod_2_eq_one bit_0)
  have raised: "get_flags (set_flags (get_flags ?ifr OR IFF_UP) ?ifr) = get_flags ?ifr OR IFF_UP"
    by (simp add: get_set_flags)
  have bits: "bit (x OR IFF_UP) i \<longleftrightarrow> bit x i \<or> i = 0" for x :: u16 and i
    by (auto simp: IFF_UP_def bit_or_iff bit_1_iff)
  show ?thesis
    using assms unfolding ensure_interface_up_eq Let_def up
    by (auto simp: raised bits set_flags_nth split: if_splits)
qed

text \<open>The environment of the witnesses: interfaces answer with all flags clear.\<close>

theorem interface_brought_up_witness:
  "get_flags (set_flags (get_flags (replicate 40 0) OR IFF_UP) (replicate 40 0)) = IFF_UP \<and>
   (\<exists>reqs. snd (ensure_interface_up (lit ''eth0'') (toy_env toy_net) []) = Socket_Close # reqs @ [Socket_Open] \<and>
      (\<exists>req. reqs = [Ioctl SIOCSIFFLAGS req, Ioctl SIOCGIFFLAGS (flags_request (lit ''eth0''))] \<and>
         bit (get_flags req) 0))"
proof -
  let ?E = "toy_env toy_net"
  have answer: "ioctl_answer ?E t ifr = replicate (length ifr) 0" for t ifr
    by (simp add: ioctl_answer_def toy_os_def map_replicate_const)
  have zero: "get_flags (replicate 40 0) = 0"
    by (simp add: get_flags_def numeral_eq_Suc)
  have run: "ensure_interface_up (lit ''eth0'') ?E [] =
      (Ok True, snd (ensure_interface_up (lit ''eth0'') ?E []))"
    by (simp add: ensure_interface_up_eq Let_def answer zero) (simp add: toy_os_def)
  show ?thesis
    using interface_brought_up [OF run]
    by (auto simp: Let_def get_set_flags zero) (simp_all add: toy_os_def)
qed

lemma configure_loopback_eq:
  "configure_loopback E t =
     (let req1 = put 16 (sockaddr_in [127, 0, 0, 1]) (put 0 (lit ''lo'') (replicate 40 0));
          t1 = Socket_Open # t; t2 = Ioctl SIOCSIFADDR req1 # t1;
          req2 = put 16 (sockaddr_in [255, 0, 0, 0]) (ioctl_answer E t1 req1);
          t3 = Ioctl SIOCSIFNETMASK req2 # t2;
          req3 = put 16 (replicate 24 0) (ioctl_answer E t2 req2);
          t4 = Ioctl SIOCGIFFLAGS req3 # t3;
          ifr = ioctl_answer E t3 req3;
          req4 = set_flags (get_flags ifr OR IFF_UP OR IFF_RUNNING) ifr;
          t5 = Ioctl SIOCSIFFLAGS req4 # t4
      in if \<not> socket_ok (os E) t then (Err Socket_Failed, t1)
         else if \<not> ioctl_ok (os E) t1 then (Err (Ioctl_Failed SIOCSIFADDR), Socket_Close # t2)
         else if \<not> ioctl_ok (os E) t2 then (Err (Ioctl_Failed SIOCSIFNETMASK), Socket_Close # t3)
         else if \<not> ioctl_ok (os E) t3 then (Err (Ioctl_Failed SIOCGIFFLAGS), Socket_Close # t4)
         else if \<not> ioctl_ok (os E) t4 then (Err (Ioctl_Failed SIOCSIFFLAGS), Socket_Close # t5)
         else (Ok (), Socket_Close # t5))"
  by (simp add: configure_loopback_def bind_eq ioctl_eq open_socket_eq Let_def)

text \<open>The address bytes of a request.\<close>

lemma sockaddr_in_bytes: "length a = 4 \<Longrightarrow> take 8 (drop 16 (put 16 (sockaddr_in a) ifr)) = [2, 0, 0, 0] @ a"
  if "16 \<le> length ifr"
  using that by (simp add: put_def sockaddr_in_def numeral_eq_Suc)

lemma length_sockaddr_in: "length a = 4 \<Longrightarrow> length (sockaddr_in a) = 16"
  by (simp add: sockaddr_in_def put_length)

text \<open>
  Configuring the loopback interface gives \<open>lo\<close> the address 127.0.0.1 and the netmask 255.0.0.0 in
  network byte order and then sets the bits \<open>IFF_UP\<close> and \<open>IFF_RUNNING\<close> of the flags the kernel
  reported, leaving the others; it succeeds only when the kernel accepted all four requests, and
  closes its socket on every path.
\<close>

theorem loopback_configured:
  assumes "configure_loopback E t = (r, t')"
  shows "\<exists>reqs. t' = (if socket_ok (os E) t then Socket_Close # reqs @ Socket_Open # t else Socket_Open # t) \<and>
     (r = Ok () \<longrightarrow>
       (\<exists>req1 req2 req3 req4.
          reqs = [Ioctl SIOCSIFFLAGS req4, Ioctl SIOCGIFFLAGS req3, Ioctl SIOCSIFNETMASK req2,
                  Ioctl SIOCSIFADDR req1] \<and>
          take 16 req1 = lit ''lo'' @ replicate 14 0 \<and>
          take 8 (drop 16 req1) = [2, 0, 0, 0, 127, 0, 0, 1] \<and>
          take 8 (drop 16 req2) = [2, 0, 0, 0, 255, 0, 0, 0] \<and>
          (\<forall>i. bit (get_flags req4) i =
             (bit (get_flags (ioctl_answer E (drop 3 t') req3)) i \<or> i = 0 \<or> i = 6))))"
proof -
  let ?req1 = "put 16 (sockaddr_in [127, 0, 0, 1]) (put 0 [108, 111] (replicate 40 0))"
  have bits: "bit (x OR IFF_UP OR IFF_RUNNING) i \<longleftrightarrow> bit x i \<or> i = 0 \<or> i = 6" for x :: u16 and i
  proof -
    have running: "bit IFF_RUNNING i \<longleftrightarrow> i = 6"
    proof -
      have "IFF_RUNNING = push_bit 6 1" by (simp add: IFF_RUNNING_def)
      show ?thesis unfolding \<open>IFF_RUNNING = push_bit 6 1\<close> bit_push_bit_iff by (auto simp: bit_1_iff)
    qed
    show ?thesis by (auto simp: IFF_UP_def bit_or_iff bit_1_iff running)
  qed
  have len: "length (put 16 (sockaddr_in a) ifr) = length ifr" if "length a = 4" "length ifr = 40" for a ifr
    using that by (simp add: put_length length_sockaddr_in)
  have len1: "length ?req1 = 40" by (simp add: len put_length)
  have name: "take 16 ?req1 = 108 # 111 # replicate 14 0"
    by (simp add: put_def sockaddr_in_def numeral_eq_Suc)
  show ?thesis
    using assms unfolding configure_loopback_eq Let_def
    by (auto simp: get_set_flags bits name sockaddr_in_bytes len1 len put_length split: if_splits)
qed

theorem loopback_configured_witness:
  "\<exists>req1 req4 reqs. snd (configure_loopback (toy_env toy_net) []) = Socket_Close # Ioctl SIOCSIFFLAGS req4 # reqs @ [Ioctl SIOCSIFADDR req1, Socket_Open] \<and>
     take 8 (drop 16 req1) = [2, 0, 0, 0, 127, 0, 0, 1] \<and> bit (get_flags req4) 0 \<and> bit (get_flags req4) 6"
proof -
  have run: "configure_loopback (toy_env toy_net) [] = (Ok (), snd (configure_loopback (toy_env toy_net) []))"
    by (simp add: configure_loopback_eq Let_def) (simp add: toy_os_def)
  obtain reqs req1 req2 req3 req4 where
    "snd (configure_loopback (toy_env toy_net) []) = Socket_Close # reqs @ [Socket_Open]"
    "reqs = [Ioctl SIOCSIFFLAGS req4, Ioctl SIOCGIFFLAGS req3, Ioctl SIOCSIFNETMASK req2, Ioctl SIOCSIFADDR req1]"
    "take 8 (drop 16 req1) = [2, 0, 0, 0, 127, 0, 0, 1]" "bit (get_flags req4) 0" "bit (get_flags req4) 6"
    using loopback_configured [OF run] by (auto simp: toy_os_def)
  then show ?thesis
    by (intro exI [of _ req1] exI [of _ req4] exI [of _ "[Ioctl SIOCGIFFLAGS req3, Ioctl SIOCSIFNETMASK req2]"])
      simp
qed

text \<open>The mounts of a run in which every call succeeds.\<close>

theorem locked_down_mounts_witness:
  "\<exists>t2. mount_flags (toy_env toy_net) t2 PAYLOAD_DIR = Some (MS_REMOUNT OR MS_RDONLY OR MS_NOSUID OR MS_NODEV) \<and>
     writable_executable (flags_at (toy_env toy_net) t2 (lit ''/etc''))"
proof -
  let ?E = "toy_env toy_net"
  have "completes ?E (prepare_system_env :: (unit, unit) io)"
    by (rule prepare_system_env_completes) (simp_all add: toy_os_def)
  then obtain u t1 where t1: "prepare_system_env ?E [] = (Ok u :: (unit, unit) result, t1)"
    using completesD by blast
  obtain t2 where t2: "lockdown_filesystem ?E ([] @ t1) = (Ok () :: (unit, unit) result, t2)"
    by (simp add: lockdown_filesystem_def bind_eq must_mount_eq toy_os_def)
  show ?thesis
    using locked_down_mounts [of "[]" ?E u t1 "[]" "()" t2 PAYLOAD_DIR, OF _ t1 _ t2]
      locked_down_mounts [of "[]" ?E u t1 "[]" "()" t2 "lit ''/etc''", OF _ t1 _ t2]
    by (auto simp: PAYLOAD_DIR_def under_def starts_with_def)
qed

end
