(* ===== verification/Network_Events.thy ===== *)
theory Network_Events
  imports Roughtime_Query Dnscrypt
begin

text \<open>
  What the network clients do besides their answers: name resolution and the time queries only
  exchange datagrams and TCP data, draw random bytes, read the clock, sleep and make HTTP requests.
  They write no file, mount nothing, set no clock and start no process. The boot sequence rests on
  this.
\<close>

definition network_event :: "event \<Rightarrow> bool" where
  "network_event ev \<longleftrightarrow>
     (case ev of
        Read_Clock \<Rightarrow> True | Rand_Fill _ \<Rightarrow> True | Sleep_Ms _ \<Rightarrow> True | Udp_Bind \<Rightarrow> True
      | Udp_Send _ _ \<Rightarrow> True | Udp_Recv _ _ \<Rightarrow> True | Tcp_Connect _ _ \<Rightarrow> True | Tcp_Write _ \<Rightarrow> True
      | Tcp_Read _ \<Rightarrow> True | Generate_X25519 \<Rightarrow> True | _ \<Rightarrow> False)"

text \<open>The fallback time source also builds a client with the given configuration and uses it.\<close>

definition date_event :: "tls_config \<Rightarrow> event \<Rightarrow> bool" where
  "date_event tls ev \<longleftrightarrow>
     network_event ev \<or> ev = Build_Http_Client tls 5 None \<or>
     (\<exists>ip. ev = Http_Get_Pinned (lit ''https://am.i.mullvad.net/'') mullvad_host (ip, 443))"

lemmas network_event = network_event_def event.case

section \<open>Name resolution\<close>

lemma attempt_emits [emits_intro]: "emits E P m \<Longrightarrow> emits E P (attempt m)"
  unfolding attempt_def by (intro emits_intro)

lemma rand_fill_emits [emits_intro]: "emits E network_event (rand_fill e n)"
  unfolding rand_fill_def by (intro emits_intro) (simp add: network_event)

lemma udp_attempts_emits [emits_intro]: "emits E network_event (udp_attempts addr query n)"
proof (induction n)
  case 0
  show ?case unfolding udp_attempts.simps by (intro emits_intro)
next
  case (Suc n)
  then show ?case
    unfolding udp_attempts.simps by (intro emits_intro) (simp_all add: network_event)
qed

lemma send_dns_query_udp_emits [emits_intro]: "emits E network_event (send_dns_query_udp addr query)"
  unfolding send_dns_query_udp_def by (intro emits_intro) (simp add: network_event)

lemma tcp_write_all_emits [emits_intro]: "emits E network_event (tcp_write_all xs)"
  unfolding tcp_write_all_def by (intro emits_intro) (simp add: network_event)

lemma tcp_read_exact_emits [emits_intro]: "emits E network_event (tcp_read_exact n)"
  unfolding tcp_read_exact_def by (intro emits_intro) (simp add: network_event)

lemma send_dns_query_tcp_emits [emits_intro]: "emits E network_event (send_dns_query_tcp addr query)"
  unfolding send_dns_query_tcp_def by (intro emits_intro) (simp add: network_event)

lemma send_dns_query_emits [emits_intro]: "emits E network_event (send_dns_query addr query force_tcp)"
  unfolding send_dns_query_def by (intro emits_intro)

lemma verify_cert_emits [emits_intro]: "emits E network_event (verify_cert cert pk)"
  unfolding verify_cert_def by (intro emits_intro) (simp add: network_event)

lemma best_cert_emits [emits_intro]: "emits E network_event (best_cert pk best certs)"
proof (induction certs arbitrary: best)
  case Nil
  show ?case unfolding best_cert.simps by (intro emits_intro)
next
  case (Cons cert certs)
  then show ?case unfolding best_cert.simps by (intro emits_intro) simp_all
qed

lemma agree_emits [emits_intro]: "emits E network_event (agree sk pk)"
  unfolding agree_def by (intro emits_intro)

lemma key_exchange_emits [emits_intro]: "emits E network_event (key_exchange resolver cert)"
  unfolding key_exchange_def by (intro emits_intro) (simp add: network_event)

lemma try_resolvers_emits [emits_intro]: "emits E network_event (try_resolvers resolvers)"
proof (induction resolvers)
  case Nil
  show ?case unfolding try_resolvers.simps by (intro emits_intro)
next
  case (Cons resolver resolvers)
  then show ?case unfolding try_resolvers.simps by (intro emits_intro) simp_all
qed

lemma resolve_session_emits [emits_intro]:
  "emits E network_event (resolve_domain_via_dnscrypt_session session domain)"
  unfolding resolve_domain_via_dnscrypt_session_def by (intro emits_intro)

lemma resolve_domain_emits [emits_intro]: "emits E network_event (resolve_domain_via_dnscrypt domain)"
  unfolding resolve_domain_via_dnscrypt_def establish_dnscrypt_session_def by (intro emits_intro)

section \<open>Time\<close>

lemma rt_exchange_emits [emits_intro]: "emits E network_event (rt_exchange addr req n)"
proof (induction n)
  case 0
  show ?case unfolding rt_exchange.simps by (intro emits_intro)
next
  case (Suc n)
  then show ?case
    unfolding rt_exchange.simps by (intro emits_intro) (simp_all add: network_event)
qed

lemma query_single_emits [emits_intro]: "emits E network_event (query_single_roughtime ip port key)"
  unfolding query_single_roughtime_def by (intro emits_intro) (simp add: network_event)

lemma collect_all_emits: "(\<And>x. emits E P (f x)) \<Longrightarrow> emits E P (collect_all f xs)"
proof (induction xs)
  case Nil
  show ?case unfolding collect_all.simps by (intro emits_intro)
next
  case (Cons x xs)
  then show ?case unfolding collect_all.simps by (intro emits_intro) simp_all
qed

lemma query_roughtime_emits [emits_intro]: "emits E network_event (query_roughtime servers)"
  unfolding query_roughtime_def
  by (intro emits_intro collect_all_emits) (auto intro: emits_intro split: prod.split)

lemma query_mullvad_emits: "emits E (date_event tls) (query_mullvad_secure_date tls)"
  unfolding query_mullvad_secure_date_def Let_def
  by (intro emits_intro emits_weaken [OF resolve_domain_emits]) (auto simp: date_event_def)

section \<open>Nothing of this ends the process\<close>

lemma query_single_safe [safe_intro]: "safe E (query_single_roughtime ip port key)"
  by (simp add: safe_def query_single_no_panic)

lemma collect_all_completes: "(\<And>x. safe E (f x)) \<Longrightarrow> completes E (collect_all f xs)"
proof (induction xs)
  case Nil
  show ?case unfolding collect_all.simps by (intro completes_intro)
next
  case (Cons x xs)
  then show ?case
    unfolding collect_all.simps attempt_def by (intro completes_intro completes_on_result) simp_all
qed

lemma query_roughtime_safe [safe_intro]: "safe E (query_roughtime servers)"
  unfolding query_roughtime_def
proof (rule safe_bind)
  have "safe E ((\<lambda>(srv, ip). query_single_roughtime ip (rs_port srv) (rs_pubkey_base64 srv)) x)" for x
    by (cases x) (simp add: query_single_safe)
  then show "safe E (collect_all
      (\<lambda>(srv, ip). query_single_roughtime ip (rs_port srv) (rs_pubkey_base64 srv)) servers)"
    by (rule completes_safe [OF collect_all_completes])
qed (simp add: safe_pure consensus_no_panic)

lemma query_mullvad_completes [completes_intro]: "completes E (query_mullvad_secure_date tls)"
  unfolding query_mullvad_secure_date_def Let_def attempt_def
  by (intro completes_intro completes_on_result safe_intro)

end
