(* ===== verification/Download.thy ===== *)
theory Download
  imports World Config
begin

text \<open>
  \<open>src/crypto.rs\<close>: \<open>wait_for_entropy\<close> and \<open>download_with_retry\<close>. A body is collected chunk by chunk up to
  100 MB; an attempt fails on a missing connection, a status that is no success, a body that is too
  large, broken off or empty. After five failed attempts the machine is powered off.

  The lemmas show that a download always ends, after at most five requests, and that what it returns
  is the complete body of a successful answer within the limit.
\<close>

section \<open>Entropy\<close>

definition wait_for_entropy :: "('e, unit) io" where
  "wait_for_entropy =
     bind (call (Open_Read (lit ''/dev/random'')) (\<lambda>E. fs_ok (os E))) (\<lambda>opened.
     if opened then emit Read_Byte else return ())"

section \<open>One answer\<close>

datatype download_error =
    Connection_Failed
  | Bad_Status u16
  | Size_Limit_Exceeded
  | Body_Read_Failed
  | Empty_Response

definition max_body :: nat where
  "max_body = 100 * 1024 * 1024"

text \<open>\<open>StatusCode::is_success\<close>.\<close>

definition is_success :: "u16 \<Rightarrow> bool" where
  "is_success status \<longleftrightarrow> 200 \<le> status \<and> status < 300"

text \<open>The loop over the chunks with the bytes so far; \<open>None\<close> is \<open>limit_exceeded\<close>.\<close>

fun read_chunks :: "bytes \<Rightarrow> bytes list \<Rightarrow> bytes option" where
  "read_chunks acc [] = Some acc"
| "read_chunks acc (chunk # chunks) =
     (if max_body < length acc + length chunk then None else read_chunks (acc @ chunk) chunks)"

definition read_answer :: "http_answer \<Rightarrow> (download_error, bytes) result" where
  "read_answer answer =
     (case answer of
        No_Connection \<Rightarrow> Err Connection_Failed
      | Answer status chunks complete \<Rightarrow>
          if \<not> is_success status then Err (Bad_Status status)
          else case read_chunks [] chunks of
            None \<Rightarrow> Err Size_Limit_Exceeded
          | Some body \<Rightarrow>
              if \<not> complete then Err Body_Read_Failed
              else if body = [] then Err Empty_Response
              else Ok body)"

section \<open>The attempts\<close>

fun download_attempts :: "bytes \<Rightarrow> bytes \<Rightarrow> nat list \<Rightarrow> ('e, bytes) io" where
  "download_attempts url desc [] = panic_shutdown (Download_Failed desc)"
| "download_attempts url desc (attempt # rest) =
     bind (if 1 < attempt then emit (Sleep_Ms (RETRY_DELAY_SECS * 1000)) else return ()) (\<lambda>_.
     bind (call (Http_Get url) (\<lambda>E t. http_get (net E) t url)) (\<lambda>answer.
     on_result (pure (read_answer answer)) (\<lambda>_. download_attempts url desc rest) (\<lambda>body. return body)))"

definition download_with_retry :: "bytes \<Rightarrow> bytes \<Rightarrow> ('e, bytes) io" where
  "download_with_retry url desc = download_attempts url desc [1..<Suc MAX_DOWNLOAD_RETRIES]"

section \<open>What is returned\<close>

lemma read_chunks_Some:
  "read_chunks acc chunks = Some body \<Longrightarrow>
     body = acc @ concat chunks \<and> (length acc \<le> max_body \<longrightarrow> length body \<le> max_body)"
  by (induction acc chunks rule: read_chunks.induct) (auto split: if_splits)

lemma read_chunks_fits:
  "length acc + length (concat chunks) \<le> max_body \<Longrightarrow> read_chunks acc chunks = Some (acc @ concat chunks)"
  by (induction acc chunks rule: read_chunks.induct) auto

text \<open>The reference: the answer as one body.\<close>

lemma read_chunks_eq:
  "length acc \<le> max_body \<Longrightarrow>
     read_chunks acc chunks =
       (if length acc + length (concat chunks) \<le> max_body then Some (acc @ concat chunks) else None)"
  using read_chunks_fits [of acc chunks] read_chunks_Some [of acc chunks]
  by (cases "read_chunks acc chunks") auto

definition good_answer :: "http_answer \<Rightarrow> bytes \<Rightarrow> bool" where
  "good_answer answer body \<longleftrightarrow>
     (\<exists>status chunks. answer = Answer status chunks True \<and> 200 \<le> status \<and> status < 300 \<and>
        concat chunks = body \<and> body \<noteq> [] \<and> length body \<le> 100 * 1024 * 1024)"

lemma read_answer_Ok_iff: "read_answer answer = Ok body \<longleftrightarrow> good_answer answer body"
  by (cases answer) (auto simp: read_answer_def good_answer_def is_success_def read_chunks_eq max_body_def)

lemma read_answer_no_panic [simp]: "read_answer answer \<noteq> Panic"
  by (simp add: read_answer_def split: http_answer.splits option.splits)

text \<open>The body was served for the URL: an answer to a request in the trace.\<close>

definition served :: "env \<Rightarrow> trace \<Rightarrow> bytes \<Rightarrow> bytes \<Rightarrow> bool" where
  "served E t url body \<longleftrightarrow> (\<exists>p q. t = p @ Http_Get url # q \<and> good_answer (http_get (net E) q url) body)"

lemma served_later: "served E t url body \<Longrightarrow> served E (p @ t) url body"
  unfolding served_def by (metis append.assoc)

lemma served_now: "good_answer (http_get (net E) q url) body \<Longrightarrow> served E (Http_Get url # q) url body"
  unfolding served_def by (metis append_Nil)

text \<open>The answers to the requests for a URL in the events \<open>p\<close> after \<open>t\<close>, newest first.\<close>

fun answers :: "env \<Rightarrow> bytes \<Rightarrow> trace \<Rightarrow> trace \<Rightarrow> http_answer list" where
  "answers E url [] t = []"
| "answers E url (ev # p) t =
     (if ev = Http_Get url then http_get (net E) (p @ t) url # answers E url p t else answers E url p t)"

lemma answers_append: "answers E url (p @ q) t = answers E url p (q @ t) @ answers E url q t"
  by (induction p) auto

definition bad_answer :: "http_answer \<Rightarrow> bool" where
  "bad_answer answer \<longleftrightarrow> (\<forall>body. \<not> good_answer answer body)"

definition retry_wait :: "nat \<Rightarrow> trace" where
  "retry_wait attempt = (if 1 < attempt then [Sleep_Ms 3000] else [])"

lemma answers_wait [simp]: "answers E url (retry_wait n) t = []"
  by (simp add: retry_wait_def)

lemma retry_wait_eq:
  "(if 1 < n then emit (Sleep_Ms (RETRY_DELAY_SECS * 1000)) else return ()) E t = (Ok (), retry_wait n @ t)"
  by (simp add: RETRY_DELAY_SECS_def retry_wait_def)

lemma download_attempts_good:
  assumes "good_answer (http_get (net E) (retry_wait n @ t) url) body"
  shows "download_attempts url desc (n # rest) E t =
    (Ok body :: ('e, bytes) result, Http_Get url # retry_wait n @ t)"
proof -
  have "read_answer (http_get (net E) (retry_wait n @ t) url) = Ok body"
    using assms by (simp add: read_answer_Ok_iff)
  then show ?thesis
    unfolding download_attempts.simps bind_Ok [OF retry_wait_eq] by (simp add: bind_eq on_result_eq)
qed

lemma download_attempts_bad:
  assumes "bad_answer (http_get (net E) (retry_wait n @ t) url)"
  shows "download_attempts url desc (n # rest) E t =
    (download_attempts url desc rest E (Http_Get url # retry_wait n @ t) :: ('e, bytes) result \<times> trace)"
proof -
  obtain e where "read_answer (http_get (net E) (retry_wait n @ t) url) = Err e"
    using assms read_answer_Ok_iff read_answer_no_panic unfolding bad_answer_def by (metis result.exhaust)
  then show ?thesis
    unfolding download_attempts.simps bind_Ok [OF retry_wait_eq] by (simp add: bind_eq on_result_eq)
qed

text \<open>How a list of attempts ends.\<close>

definition download_ends ::
  "env \<Rightarrow> bytes \<Rightarrow> nat \<Rightarrow> trace \<Rightarrow> trace \<Rightarrow> ('e, bytes) result \<times> trace \<Rightarrow> bool" where
  "download_ends E url n p t res \<longleftrightarrow>
     snd res = p @ t \<and>
     (case fst res of
        Ok body \<Rightarrow> (\<exists>a as. answers E url p t = a # as \<and> length as < n \<and> good_answer a body \<and>
          (\<forall>a\<in>set as. bad_answer a))
      | Err e \<Rightarrow> False
      | Panic \<Rightarrow> length (answers E url p t) = n \<and> (\<forall>a\<in>set (answers E url p t). bad_answer a) \<and>
          halted E (p @ t))"

lemma download_ends_step:
  assumes "bad_answer (http_get (net E) (retry_wait n @ t) url)"
    and "download_ends E url k p (Http_Get url # retry_wait n @ t) res"
  shows "download_ends E url (Suc k) (p @ Http_Get url # retry_wait n) t res"
  using assms
  by (cases "fst res") (auto simp: download_ends_def answers_append)

lemma download_attempts_ends:
  "\<exists>p. download_ends E url (length attempts) p t
     (download_attempts url desc attempts E t :: ('e, bytes) result \<times> trace)"
proof (induction attempts arbitrary: t)
  case Nil
  then show ?case
    by (intro exI [of _ "if reboot_returns (os E) t then [Exit_Process 1, Power_Off (Download_Failed desc)]
        else [Power_Off (Download_Failed desc)]"])
      (simp add: download_ends_def panic_shutdown_def)
next
  case (Cons n attempts)
  show ?case
  proof (cases "bad_answer (http_get (net E) (retry_wait n @ t) url)")
    case True
    then show ?thesis
      using Cons.IH [of "Http_Get url # retry_wait n @ t"] download_ends_step
      unfolding download_attempts_bad [OF True] by (metis length_Cons)
  next
    case False
    then obtain body where b: "good_answer (http_get (net E) (retry_wait n @ t) url) body"
      by (auto simp: bad_answer_def)
    show ?thesis
      unfolding download_attempts_good [OF b]
      by (intro exI [of _ "Http_Get url # retry_wait n"]) (simp add: download_ends_def b)
  qed
qed

text \<open>The same as facts about the trace.\<close>

lemma answers_served:
  "a \<in> set (answers E url p t) \<Longrightarrow> good_answer a body \<Longrightarrow> served E (p @ t) url body"
  by (induction E url p t rule: answers.induct)
     (auto simp: served_now intro: served_later [of _ _ _ _ "[_]", simplified] split: if_splits)

lemma download_ends_now:
  obtains p where "download_ends E url 5 p t (download_with_retry url desc E t :: ('e, bytes) result \<times> trace)"
proof -
  have "length [1..<Suc MAX_DOWNLOAD_RETRIES] = 5" by (simp add: MAX_DOWNLOAD_RETRIES_def)
  then show thesis
    using download_attempts_ends [where 'e = 'e, of E url "[1..<Suc MAX_DOWNLOAD_RETRIES]" t desc] that
    unfolding download_with_retry_def by metis
qed

lemma download_served:
  assumes "download_with_retry url desc E t = (Ok body :: ('e, bytes) result, t')"
  shows "served E t' url body"
proof -
  obtain p where "download_ends E url 5 p t (Ok body :: ('e, bytes) result, t')"
    using download_ends_now [where 'e = 'e] unfolding assms [symmetric] by blast
  then show ?thesis by (auto simp: download_ends_def intro: answers_served)
qed

lemma download_attempts_fail_closed: "fail_closed E (download_attempts url desc attempts)"
proof (induction attempts)
  case (Cons n attempts)
  then show ?case
    unfolding download_attempts.simps
    by (intro fail_closed_intro fail_closed_on_result safe_pure read_answer_no_panic)
qed (simp add: fail_closed_panic_shutdown)

lemma download_fail_closed [fail_closed_intro]: "fail_closed E (download_with_retry url desc)"
  unfolding download_with_retry_def by (rule download_attempts_fail_closed)

lemma wait_for_entropy_completes [completes_intro]: "completes E wait_for_entropy"
  unfolding wait_for_entropy_def by (intro completes_intro)

text \<open>The events of this theory.\<close>

definition download_event :: "event \<Rightarrow> bool" where
  "download_event ev \<longleftrightarrow>
     (case ev of Open_Read _ \<Rightarrow> True | Read_Byte \<Rightarrow> True | Http_Get _ \<Rightarrow> True | Sleep_Ms _ \<Rightarrow> True
      | Power_Off _ \<Rightarrow> True | Exit_Process _ \<Rightarrow> True | _ \<Rightarrow> False)"

lemma wait_for_entropy_emits: "emits E download_event wait_for_entropy"
  unfolding wait_for_entropy_def by (intro emits_intro) (simp_all add: download_event_def)

lemma download_attempts_emits: "emits E download_event (download_attempts url desc attempts)"
proof (induction attempts)
  case (Cons n attempts)
  then show ?case
    unfolding download_attempts.simps by (intro emits_intro) (simp_all add: download_event_def)
next
  case Nil
  show ?case unfolding download_attempts.simps by (intro emits_intro) (simp_all add: download_event_def)
qed

lemma download_emits: "emits E download_event (download_with_retry url desc)"
  unfolding download_with_retry_def by (rule download_attempts_emits)

section \<open>Properties\<close>

text \<open>
  C37. Every download ends, after at most five requests, whatever the network does: it returns the
  complete body of the first answer that has a success status and a body of 1 byte to 100 MB, all
  earlier answers having failed; or all five answers failed, and the machine is powered off with
  nothing done after that.
\<close>

theorem download_total:
  "\<exists>p. snd (download_with_retry url desc E t :: ('e, bytes) result \<times> trace) = p @ t \<and>
     (case fst (download_with_retry url desc E t :: ('e, bytes) result \<times> trace) of
        Ok body \<Rightarrow> (\<exists>a as. answers E url p t = a # as \<and> length as < 5 \<and> good_answer a body \<and>
          list_all bad_answer as)
      | Err e \<Rightarrow> False
      | Panic \<Rightarrow> length (answers E url p t) = 5 \<and> list_all bad_answer (answers E url p t) \<and>
          halted E (p @ t))"
proof -
  obtain p where "download_ends E url 5 p t (download_with_retry url desc E t :: ('e, bytes) result \<times> trace)"
    by (rule download_ends_now)
  then show ?thesis
    unfolding download_ends_def list_all_iff by (rule exI)
qed

end
