(* ===== verification/Boot.thy ===== *)
theory Boot
  imports Network_Events Http_Date System Download
begin

text \<open>
  The boot sequence of \<open>src/main.rs\<close> up to the watchdog: the TLS configuration, the secure time, the
  payload with its checks, its deployment and the two child processes. What is proved of it is in
  \<open>Boot_Safety\<close>.
\<close>

section \<open>TLS\<close>

definition CIPHER_SUITES :: "bytes list" where
  "CIPHER_SUITES = [lit ''TLS13_AES_256_GCM_SHA384'']"

definition KX_GROUPS :: "bytes list" where
  "KX_GROUPS =
    [lit ''X25519MLKEM768'', lit ''SECP256R1MLKEM768'', lit ''MLKEM1024'', lit ''MLKEM768'',
     lit ''SECP384R1'', lit ''X25519'', lit ''SECP256R1'']"

definition hardened_tls :: tls_config where
  "hardened_tls =
     \<lparr>cipher_suites = CIPHER_SUITES, kx_groups = KX_GROUPS, tls_versions = [lit ''TLS13''],
      alpn_protocols = [lit ''h2'', lit ''http/1.1'']\<rparr>"

section \<open>Secure time\<close>

text \<open>The address used for a server of this name when it cannot be resolved.\<close>

definition fallback_ip :: "bytes \<Rightarrow> ip_addr option" where
  "fallback_ip name =
     (if name = lit ''cloudflare'' then Some (V4 162 159 200 1)
      else if name = lit ''roughtime.se'' then Some (V4 192 36 143 134)
      else if name = lit ''roughtime.int08h.com'' then Some (V4 51 81 57 55)
      else if name = lit ''google'' then Some (V4 173 194 45 81)
      else None)"

text \<open>The loop over the servers, with \<open>resolved_servers\<close> and \<open>dnscrypt_fallback_time\<close>.\<close>

fun resolve_servers ::
  "(roughtime_server \<times> ip_addr) list \<Rightarrow> u64 option \<Rightarrow> roughtime_server list \<Rightarrow>
   ('e, (roughtime_server \<times> ip_addr) list \<times> u64 option) io" where
  "resolve_servers resolved fallback [] = return (resolved, fallback)"
| "resolve_servers resolved fallback (srv # servers) =
     on_result (resolve_domain_via_dnscrypt (rs_host srv))
       (\<lambda>e. case fallback_ip (rs_name srv) of
          Some ip \<Rightarrow> resolve_servers (resolved @ [(srv, ip)]) fallback servers
        | None \<Rightarrow> resolve_servers resolved fallback servers)
       (\<lambda>(ip, fb_time). resolve_servers (resolved @ [(srv, ip)])
          (if fb_time \<noteq> None \<and> fallback = None then fb_time else fallback) servers)"

text \<open>The seconds of a fallback source become microseconds with a 64-bit multiplication.\<close>

definition obtain_time ::
  "(roughtime_server \<times> ip_addr) list \<Rightarrow> u64 option \<Rightarrow> ('e, u64 option) io" where
  "obtain_time resolved fallback =
     on_result (query_roughtime resolved)
       (\<lambda>e. case fallback of
          Some fb_time \<Rightarrow> return (Some (fb_time * 1000000))
        | None \<Rightarrow> bind (query_mullvad_secure_date hardened_tls)
            (\<lambda>date. return (map_option (\<lambda>fb_time. fb_time * 1000000) date)))
       (\<lambda>m. return (Some m))"

definition secure_time :: "('e, u64) io" where
  "secure_time =
     bind (resolve_servers [] None ROUGHTIME_SERVERS) (\<lambda>(resolved, fallback).
     bind (obtain_time resolved fallback) (\<lambda>midpoint.
     case midpoint of Some m \<Rightarrow> return m | None \<Rightarrow> panic_shutdown No_Secure_Time))"

definition adopt_time :: "u64 \<Rightarrow> ('e, unit) io" where
  "adopt_time midpoint =
     bind (or_shutdown (Time_Before_Floor midpoint) (\<not> midpoint < LAST_KNOWN_GOOD_TIME_MICROS)) (\<lambda>_.
     bind (call (Clock_Set (midpoint div 1000000) ((midpoint mod 1000000) * 1000))
       (\<lambda>E. clock_set_ok (os E))) (\<lambda>ok.
     or_shutdown Set_Clock_Failed ok))"

section \<open>The payload\<close>

definition payload_hash :: "crypto_lib \<Rightarrow> bytes \<Rightarrow> bytes" where
  "payload_hash L app = base16_lower_encode L (array_bytes (sha384 L app))"

text \<open>The signature is verified three times; the three results are combined.\<close>

definition fetch_payload :: "('e, bytes \<times> bytes) io" where
  "fetch_payload =
     bind (download_with_retry BINARY_URL (lit ''production binary'')) (\<lambda>app_bytes.
     bind (download_with_retry HASH_URL (lit ''server hash'')) (\<lambda>expected_hash_bytes.
     let expected_hash = trim (from_utf8_lossy expected_hash_bytes) in
     with_lib (\<lambda>L.
     let hash_hex = payload_hash L app_bytes in
     bind (or_shutdown (Hash_Mismatch expected_hash hash_hex) (\<not> hash_hex \<noteq> expected_hash)) (\<lambda>_.
     bind (download_with_retry SIGNATURE_URL (lit ''cryptographic signature'')) (\<lambda>sig_bytes.
     let valid1 = ecdsa_p384_verify L PUBLIC_KEY_BYTES app_bytes sig_bytes;
         valid2 = ecdsa_p384_verify L PUBLIC_KEY_BYTES app_bytes sig_bytes;
         valid3 = ecdsa_p384_verify L PUBLIC_KEY_BYTES app_bytes sig_bytes in
     bind (or_shutdown Signature_Failed (\<not> (\<not> valid1 \<or> \<not> valid2 \<or> \<not> valid3))) (\<lambda>_.
     return (app_bytes, hash_hex)))))))"

section \<open>The child processes\<close>

definition server_command :: "bytes \<Rightarrow> command" where
  "server_command hash_hex =
     \<lparr>program = TARGET_PATH, arguments = [],
      environ = [(lit ''DEVELOPMENT'', lit ''false''), (lit ''LOADER_PAYLOAD_HASH'', hash_hex)],
      uid = 65534, gid = 65534, no_core_dump = True\<rparr>"

definition attestation_command :: "bytes \<Rightarrow> bytes \<Rightarrow> command" where
  "attestation_command exe hash_hex =
     \<lparr>program = exe, arguments = [lit ''run-attestation-server'', hash_hex], environ = [],
      uid = 65534, gid = 65534, no_core_dump = True\<rparr>"

definition spawn :: "fatal \<Rightarrow> command \<Rightarrow> ('e, u32) io" where
  "spawn why c =
     bind (call (Spawn c) (\<lambda>E. spawn_pid (os E))) (\<lambda>pid.
     case pid of Some p \<Rightarrow> return p | None \<Rightarrow> panic_shutdown why)"

text \<open>Steps 5 and 6: write the payload, restrict its mode to \<open>0o555\<close>, lock the file system down.\<close>

definition store_payload :: "bytes \<Rightarrow> ('e, unit) io" where
  "store_payload app_bytes =
     bind (call (Write_File TARGET_PATH app_bytes) (\<lambda>E. fs_ok (os E))) (\<lambda>written.
     bind (or_shutdown Write_Binary_Failed written) (\<lambda>_.
     bind (call (Set_Permissions TARGET_PATH (8 * (8 * 5 + 5) + 5)) (\<lambda>E. fs_ok (os E))) (\<lambda>restricted.
     bind (or_shutdown Chmod_Binary_Failed restricted) (\<lambda>_.
     lockdown_filesystem))))"

text \<open>
  Steps 7 and 8: start the server, open \<open>/dev/sev-guest\<close> (mode \<open>0o666\<close>) and start the attestation
  server.
\<close>

definition start_children :: "bytes \<Rightarrow> ('e, u32 \<times> u32) io" where
  "start_children hash_hex =
     bind (spawn Spawn_Server_Failed (server_command hash_hex)) (\<lambda>child_pid.
     bind (call (Path_Exists (lit ''/dev/sev-guest'')) (\<lambda>E. fs_ok (os E))) (\<lambda>exists.
     bind (if exists then emit (Set_Permissions (lit ''/dev/sev-guest'') (8 * (8 * 6 + 6) + 6)) else return ()) (\<lambda>_.
     bind (call Current_Exe (\<lambda>E. current_exe (os E))) (\<lambda>exe.
     bind (spawn Spawn_Attestation_Failed
       (attestation_command (case exe of Some path \<Rightarrow> path | None \<Rightarrow> lit ''/init'') hash_hex)) (\<lambda>attest_pid.
     return (child_pid, attest_pid))))))"

section \<open>The sequence\<close>

text \<open>Steps 1 to 4, up to the verified payload.\<close>

definition acquire_payload :: "('e, bytes \<times> bytes) io" where
  "acquire_payload =
     bind prepare_system_env (\<lambda>_.
     bind enforce_time_floor (\<lambda>_.
     bind wait_for_entropy (\<lambda>_.
     bind (emit (Sleep_Ms (NETWORK_SETTLE_SECS * 1000))) (\<lambda>_.
     bind check_network_ready (\<lambda>_.
     bind (emit Install_Provider) (\<lambda>_.
     bind (call Tls_Client_Config (\<lambda>E. tls_config_ok (os E))) (\<lambda>configured.
     bind (or_shutdown Tls_Config_Failed configured) (\<lambda>_.
     bind secure_time (\<lambda>midpoint.
     bind (adopt_time midpoint) (\<lambda>_.
     bind (call (Build_Http_Client hardened_tls REQUEST_TIMEOUT_SECS (Some 30))
       (\<lambda>E. client_build_ok (net E))) (\<lambda>built.
     bind (or_shutdown Http_Client_Failed built) (\<lambda>_.
     fetch_payload))))))))))))"

text \<open>The result is the process ids of the server and of the attestation server.\<close>

definition boot :: "('e, u32 \<times> u32) io" where
  "boot =
     bind acquire_payload (\<lambda>(app_bytes, hash_hex).
     bind (store_payload app_bytes) (\<lambda>_. start_children hash_hex))"

end
