(* ===== verification/Boot_Safety.thy ===== *)
theory Boot_Safety
  imports Boot
begin

text \<open>
  The correctness of the boot sequence. Whatever the outside does, a process is only started after
  the payload was downloaded, matched its published hash and verified under the built-in key, was
  written to the payload directory and that directory was made read-only, with the clock set at or
  above the floor; the clock is only set for a reason; every failure powers the machine off; and a payload
  is accepted exactly when its checks succeed.

  The first group of lemmas shows that every step returns or powers off, the second which events a step
  can have, the third what a verified payload and the clock rest on; the invariant \<open>deployed\<close> carries
  them to the starts of the two processes.
\<close>

section \<open>Every step returns or powers the machine off\<close>

lemma completes_pair:
  "(\<And>x y. completes E (f x y)) \<Longrightarrow> completes E (case p of (x, y) \<Rightarrow> f x y)"
  by (cases p) simp

lemma resolve_servers_completes [completes_intro]: "completes E (resolve_servers resolved fallback servers)"
proof (induction servers arbitrary: resolved fallback)
  case Nil
  show ?case unfolding resolve_servers.simps by (intro completes_intro)
next
  case (Cons srv servers)
  show ?case
    unfolding resolve_servers.simps
    by (intro completes_on_result completes_pair completes_intro safe_intro Cons.IH)
qed

lemma obtain_time_completes [completes_intro]: "completes E (obtain_time resolved fallback)"
  unfolding obtain_time_def by (intro completes_on_result completes_intro safe_intro)

lemma enforce_time_floor_completes [completes_intro]: "completes E enforce_time_floor"
  unfolding enforce_time_floor_def by (intro completes_intro)

lemma check_network_ready_completes [completes_intro]: "completes E check_network_ready"
  unfolding check_network_ready_def by (intro completes_intro)

lemma fail_closed_pair [fail_closed_intro]:
  "(\<And>x y. fail_closed E (f x y)) \<Longrightarrow> fail_closed E (case p of (x, y) \<Rightarrow> f x y)"
  by (cases p) simp

lemma secure_time_fail_closed [fail_closed_intro]: "fail_closed E secure_time"
  unfolding secure_time_def
  by (intro fail_closed_intro completes_fail_closed [OF resolve_servers_completes]
      completes_fail_closed [OF obtain_time_completes])

lemma adopt_time_fail_closed [fail_closed_intro]: "fail_closed E (adopt_time midpoint)"
  unfolding adopt_time_def by (intro fail_closed_intro)

lemma fetch_payload_fail_closed [fail_closed_intro]: "fail_closed E fetch_payload"
  unfolding fetch_payload_def Let_def by (intro fail_closed_intro)

lemma spawn_fail_closed [fail_closed_intro]: "fail_closed E (spawn why c)"
  unfolding spawn_def by (intro fail_closed_intro)

lemma store_payload_fail_closed [fail_closed_intro]: "fail_closed E (store_payload app)"
  unfolding store_payload_def by (intro fail_closed_intro)

lemma start_children_fail_closed [fail_closed_intro]: "fail_closed E (start_children hash)"
  unfolding start_children_def by (intro fail_closed_intro)

lemma acquire_payload_fail_closed [fail_closed_intro]: "fail_closed E acquire_payload"
  unfolding acquire_payload_def
  by (intro fail_closed_bind prepare_system_env_fail_closed secure_time_fail_closed adopt_time_fail_closed
      fetch_payload_fail_closed fail_closed_or_shutdown completes_fail_closed completes_intro)

lemma boot_fails_closed: "fail_closed E boot"
  unfolding boot_def by (intro fail_closed_intro)

section \<open>Nothing is started before the payload is verified\<close>

definition no_spawn :: "event \<Rightarrow> bool" where
  "no_spawn ev \<longleftrightarrow> (case ev of Spawn _ \<Rightarrow> False | _ \<Rightarrow> True)"

text \<open>Neither a process is started nor the clock set.\<close>

definition inert :: "event \<Rightarrow> bool" where
  "inert ev \<longleftrightarrow> (case ev of Spawn _ \<Rightarrow> False | Clock_Set _ _ \<Rightarrow> False | _ \<Rightarrow> True)"

lemma inert_no_spawn: "inert ev \<Longrightarrow> no_spawn ev"
  by (cases ev) (simp_all add: inert_def no_spawn_def)

lemma network_inert: "network_event ev \<Longrightarrow> inert ev"
  by (cases ev) (simp_all add: network_event_def inert_def)

lemma date_inert: "date_event tls ev \<Longrightarrow> inert ev"
  by (cases ev) (simp_all add: date_event_def network_event_def inert_def)

lemma net_setup_inert: "net_setup_event ev \<Longrightarrow> inert ev"
  by (cases ev) (simp_all add: net_setup_event_def inert_def)

lemma sysctl_inert: "sysctl_event ev \<Longrightarrow> inert ev"
  by (cases ev) (simp_all add: sysctl_event_def inert_def)

lemma download_inert: "download_event ev \<Longrightarrow> inert ev"
  by (cases ev) (simp_all add: download_event_def inert_def)

lemmas inert_steps =
  emits_weaken [OF resolve_domain_emits network_inert]
  emits_weaken [OF query_roughtime_emits network_inert]
  emits_weaken [OF query_mullvad_emits date_inert]
  emits_weaken [OF init_networking_emits net_setup_inert]
  emits_weaken [OF check_network_ready_emits net_setup_inert]
  emits_weaken [OF apply_kernel_hardening_emits sysctl_inert]
  emits_weaken [OF download_emits download_inert]
  emits_weaken [OF wait_for_entropy_emits download_inert]

lemma emits_pair [emits_intro]:
  "(\<And>x y. emits E P (f x y)) \<Longrightarrow> emits E P (case p of (x, y) \<Rightarrow> f x y)"
  by (cases p) simp

lemma must_mount_inert: "emits E inert (must_mount why src target fstype flags options)"
  unfolding must_mount_def mount_def by (intro emits_intro) (simp_all add: inert_def)

lemma prepare_inert: "emits E inert prepare_system_env"
  unfolding prepare_system_env_def mount_def
  by (intro must_mount_inert inert_steps emits_intro) (simp_all add: inert_def)

lemma lockdown_inert: "emits E inert lockdown_filesystem"
  unfolding lockdown_filesystem_def by (intro must_mount_inert emits_bind)

lemma resolve_servers_inert: "emits E inert (resolve_servers resolved fallback servers)"
proof (induction servers arbitrary: resolved fallback)
  case Nil
  show ?case unfolding resolve_servers.simps by (intro emits_intro)
next
  case (Cons srv servers)
  show ?case
    unfolding resolve_servers.simps by (intro Cons.IH inert_steps emits_intro)
qed

lemma obtain_time_inert: "emits E inert (obtain_time resolved fallback)"
  unfolding obtain_time_def by (intro inert_steps emits_intro)

lemma secure_time_inert: "emits E inert secure_time"
  unfolding secure_time_def
  by (intro resolve_servers_inert obtain_time_inert emits_intro) (simp_all add: inert_def)

lemma fetch_payload_emits: "emits E download_event fetch_payload"
  unfolding fetch_payload_def Let_def
  by (intro download_emits emits_intro) (simp_all add: download_event_def)

lemma store_payload_inert: "emits E inert (store_payload app)"
  unfolding store_payload_def by (intro lockdown_inert emits_intro) (simp_all add: inert_def)

lemma acquire_payload_no_spawn: "emits E no_spawn acquire_payload"
  unfolding acquire_payload_def adopt_time_def enforce_time_floor_def
  by (intro emits_weaken [OF prepare_inert inert_no_spawn]
      emits_weaken [OF secure_time_inert inert_no_spawn]
      emits_weaken [OF fetch_payload_emits inert_no_spawn [OF download_inert]]
      emits_weaken [OF wait_for_entropy_emits inert_no_spawn [OF download_inert]]
      emits_weaken [OF check_network_ready_emits inert_no_spawn [OF net_setup_inert]]
      emits_intro) (simp_all add: no_spawn_def)

section \<open>The evidence for a payload\<close>

text \<open>
  The payload is the body of an answer to the binary's URL, its hash is the text served for the hash
  URL, and a body served for the signature URL is its signature under the built-in key.
\<close>

definition verified :: "env \<Rightarrow> trace \<Rightarrow> bytes \<Rightarrow> bool" where
  "verified E t app \<longleftrightarrow>
     (\<exists>hash sig. served E t BINARY_URL app \<and> served E t HASH_URL hash \<and> served E t SIGNATURE_URL sig \<and>
        payload_hash (lib E) app = trim (from_utf8_lossy hash) \<and>
        ecdsa_p384_verify (lib E) PUBLIC_KEY_BYTES app sig)"

lemma served_emits: "emits E P m \<Longrightarrow> m E t = (r, t') \<Longrightarrow> served E t url body \<Longrightarrow> served E t' url body"
  by (metis emitsD served_later)

lemma verified_later: "verified E t app \<Longrightarrow> verified E (p @ t) app"
  unfolding verified_def using served_later by metis

lemma fetch_payload_Ok:
  assumes "fetch_payload E t = (Ok (app, h) :: ('e, bytes \<times> bytes) result, t')"
  shows "verified E t' app \<and> h = payload_hash (lib E) app"
proof -
  obtain hash sig t1 t2 where
    d1: "download_with_retry BINARY_URL (lit ''production binary'') E t = (Ok app :: ('e, bytes) result, t1)"
    and d2: "download_with_retry HASH_URL (lit ''server hash'') E t1 = (Ok hash :: ('e, bytes) result, t2)"
    and d3: "download_with_retry SIGNATURE_URL (lit ''cryptographic signature'') E t2 =
      (Ok sig :: ('e, bytes) result, t')"
    and ok: "payload_hash (lib E) app = trim (from_utf8_lossy hash)"
      "ecdsa_p384_verify (lib E) PUBLIC_KEY_BYTES app sig" "h = payload_hash (lib E) app"
    using assms by (auto simp: fetch_payload_def Let_def bind_Ok_iff or_shutdown_eq split: if_splits)
  show ?thesis
    unfolding verified_def using ok download_served [OF d1] download_served [OF d2] download_served [OF d3]
      served_emits [OF download_emits d2] served_emits [OF download_emits d3] by metis
qed

section \<open>The clock\<close>

text \<open>The time the clock was last set to by a call that succeeded.\<close>

fun last_clock :: "env \<Rightarrow> trace \<Rightarrow> (u64 \<times> u64) option" where
  "last_clock E [] = None"
| "last_clock E (ev # t) =
     (case ev of
        Clock_Set secs nsecs \<Rightarrow> if clock_set_ok (os E) t then Some (secs, nsecs) else last_clock E t
      | _ \<Rightarrow> last_clock E t)"

lemma last_clock_append: "\<forall>ev\<in>set p. inert ev \<Longrightarrow> last_clock E (p @ t) = last_clock E t"
proof (induction p)
  case (Cons ev p)
  then show ?case by (cases ev) (simp_all add: inert_def)
qed simp

lemma last_clock_event: "last_clock E t = Some (secs, nsecs) \<Longrightarrow> \<exists>p u. t = p @ Clock_Set secs nsecs # u"
proof (induction t)
  case (Cons ev t)
  have later: "\<exists>p u. ev # t = p @ Clock_Set secs nsecs # u" if "last_clock E t = Some (secs, nsecs)"
    using Cons.IH [OF that] by (metis append_Cons)
  have here: "\<exists>p u. Clock_Set secs nsecs # t = p @ Clock_Set secs nsecs # u" by (metis append_Nil)
  show ?case
    using Cons.prems later here by (cases ev) (auto split: if_splits)
qed simp

text \<open>A clock setting of at least the floor, with a proper number of nanoseconds.\<close>

definition above_floor :: "(u64 \<times> u64) option \<Rightarrow> bool" where
  "above_floor c \<longleftrightarrow>
     (case c of None \<Rightarrow> False
      | Some (secs, nsecs) \<Rightarrow> unat nsecs < 10 ^ 9 \<and>
          unat LAST_KNOWN_GOOD_TIME_MICROS * 1000 \<le> unat secs * 10 ^ 9 + unat nsecs)"

lemma split_micros:
  fixes m :: u64
  shows "unat (m div 1000000) = unat m div 10 ^ 6" "unat ((m mod 1000000) * 1000) = (unat m mod 10 ^ 6) * 1000"
proof -
  show "unat (m div 1000000) = unat m div 10 ^ 6" by (simp add: unat_div)
  have "unat (m mod 1000000) = unat m mod 10 ^ 6" by (simp add: unat_mod)
  then show "unat ((m mod 1000000) * 1000) = (unat m mod 10 ^ 6) * 1000"
    by (subst unat_mult_lem [THEN iffD1]) simp_all
qed

lemma micros_recombine:
  fixes m :: u64
  shows "unat (m div 1000000) * 10 ^ 9 + unat ((m mod 1000000) * 1000) = unat m * 1000"
    "unat ((m mod 1000000) * 1000) < 10 ^ 9"
proof -
  have scale: "a * 10 ^ 9 + b * 1000 = n * 1000" if "a * 10 ^ 6 + b = n" for a b n :: nat
    using that by auto
  show "unat (m div 1000000) * 10 ^ 9 + unat ((m mod 1000000) * 1000) = unat m * 1000"
    unfolding split_micros by (rule scale [OF div_mult_mod_eq])
  show "unat ((m mod 1000000) * 1000) < 10 ^ 9"
    unfolding split_micros by simp
qed

lemma above_floor_micros:
  "\<not> m < LAST_KNOWN_GOOD_TIME_MICROS \<Longrightarrow> above_floor (Some (m div 1000000, (m mod 1000000) * 1000))"
  unfolding above_floor_def by (simp add: micros_recombine [simplified] word_less_nat_alt)

lemma adopt_time_eq:
  "adopt_time m E t =
     (if m < LAST_KNOWN_GOOD_TIME_MICROS then panic_shutdown (Time_Before_Floor m) E t
      else if clock_set_ok (os E) t then (Ok (), Clock_Set (m div 1000000) ((m mod 1000000) * 1000) # t)
      else panic_shutdown Set_Clock_Failed E (Clock_Set (m div 1000000) ((m mod 1000000) * 1000) # t))"
  by (simp add: adopt_time_def bind_eq or_shutdown_eq panic_shutdown_def)

lemma acquire_payload_Ok:
  assumes "acquire_payload E t = (Ok (app, h) :: ('e, bytes \<times> bytes) result, t')"
  shows "verified E t' app \<and> h = payload_hash (lib E) app \<and> above_floor (last_clock E t')"
proof -
  obtain m t1 where
    fetch: "fetch_payload E (Build_Http_Client hardened_tls REQUEST_TIMEOUT_SECS (Some 30) #
        Clock_Set (m div 1000000) ((m mod 1000000) * 1000) # t1) =
      (Ok (app, h) :: ('e, bytes \<times> bytes) result, t')"
    and m: "\<not> m < LAST_KNOWN_GOOD_TIME_MICROS" and set: "clock_set_ok (os E) t1"
    using assms by (auto simp: acquire_payload_def bind_Ok_iff or_shutdown_eq adopt_time_eq split: if_splits)
  obtain p where p: "t' = p @ Build_Http_Client hardened_tls REQUEST_TIMEOUT_SECS (Some 30) #
        Clock_Set (m div 1000000) ((m mod 1000000) * 1000) # t1"
    and none: "\<forall>ev\<in>set p. download_event ev"
    using fetch_payload_emits fetch by (rule emitsD)
  then have "last_clock E t' = Some (m div 1000000, (m mod 1000000) * 1000)"
    using download_inert set by (simp add: last_clock_append)
  then show ?thesis
    using fetch_payload_Ok [OF fetch] above_floor_micros [OF m] by simp
qed

section \<open>What a process is started with\<close>

text \<open>
  The content of the payload file: that of the last successful write, unless something was mounted
  over it since; a remount keeps the files.
\<close>

fun payload_file :: "env \<Rightarrow> trace \<Rightarrow> bytes option" where
  "payload_file E [] = None"
| "payload_file E (ev # t) =
     (case ev of
        Write_File path content \<Rightarrow>
          if path = TARGET_PATH \<and> fs_ok (os E) t then Some content else payload_file E t
      | Mount src target fstype flags options \<Rightarrow>
          if flags AND MS_REMOUNT = 0 \<and> target \<in> {lit ''/run'', PAYLOAD_DIR} \<and> mount_ok (os E) t
          then None else payload_file E t
      | _ \<Rightarrow> payload_file E t)"

text \<open>
  The start of a process is authorised: the payload file holds a verified payload, its directory is
  read-only, \<open>/tmp\<close> and \<open>/run\<close> cannot execute, the clock was set at or above the floor, and the
  process is the server or the attestation server, unprivileged, with the hash of that payload.
\<close>

definition authorised :: "env \<Rightarrow> command \<Rightarrow> trace \<Rightarrow> bool" where
  "authorised E c t \<longleftrightarrow>
     (\<exists>app. verified E t app \<and> payload_file E t = Some app \<and>
        has_flag MS_RDONLY (mount_flags E t PAYLOAD_DIR) \<and>
        has_flag MS_NOEXEC (mount_flags E t (lit ''/tmp'')) \<and>
        has_flag MS_NOEXEC (mount_flags E t (lit ''/run'')) \<and>
        above_floor (last_clock E t) \<and>
        (c = server_command (payload_hash (lib E) app) \<or>
         (\<exists>exe. c = attestation_command exe (payload_hash (lib E) app) \<and>
            exe \<in> {lit ''/init''} \<union> {path. \<exists>u. current_exe (os E) u = Some path})))"

fun spawns_authorised :: "env \<Rightarrow> trace \<Rightarrow> bool" where
  "spawns_authorised E [] = True"
| "spawns_authorised E (ev # t) \<longleftrightarrow>
     (case ev of Spawn c \<Rightarrow> authorised E c t | _ \<Rightarrow> True) \<and> spawns_authorised E t"

lemma spawns_authorised_no_spawn:
  "\<forall>ev\<in>set p. no_spawn ev \<Longrightarrow> spawns_authorised E (p @ t) = spawns_authorised E t"
proof (induction p)
  case (Cons ev p)
  then show ?case by (cases ev) (simp_all add: no_spawn_def)
qed simp

lemma spawns_authorisedD: "spawns_authorised E (p @ Spawn c # t) \<Longrightarrow> authorised E c t"
  by (induction p) auto

section \<open>The deployment\<close>

lemma lockdown_filesystem_trace:
  "lockdown_filesystem E t = (Ok u, t') \<Longrightarrow>
     t' = Mount None (lit ''/run'') None (MS_REMOUNT OR MS_NOSUID OR MS_NODEV OR MS_NOEXEC) (Some run_options) #
       Mount None (lit ''/tmp'') None (MS_REMOUNT OR MS_NOSUID OR MS_NODEV OR MS_NOEXEC) (Some tmp_options) #
       Mount None PAYLOAD_DIR None (MS_REMOUNT OR MS_RDONLY OR MS_NOSUID OR MS_NODEV) None # t"
  by (auto simp: lockdown_filesystem_def bind_Ok_iff must_mount_Ok_iff)

text \<open>The state between the lockdown and the second start.\<close>

definition deployed :: "env \<Rightarrow> bytes \<Rightarrow> trace \<Rightarrow> bool" where
  "deployed E app t \<longleftrightarrow>
     verified E t app \<and> payload_file E t = Some app \<and> has_flag MS_RDONLY (mount_flags E t PAYLOAD_DIR) \<and>
     has_flag MS_NOEXEC (mount_flags E t (lit ''/tmp'')) \<and>
     has_flag MS_NOEXEC (mount_flags E t (lit ''/run'')) \<and> above_floor (last_clock E t) \<and>
     spawns_authorised E t"

text \<open>Events that change nothing of it.\<close>

fun idle :: "event \<Rightarrow> bool" where
  "idle (Path_Exists path) = True"
| "idle (Set_Permissions path mode) = True"
| "idle Current_Exe = True"
| "idle (Power_Off why) = True"
| "idle (Exit_Process code) = True"
| "idle ev = False"

lemma deployed_idle: "idle ev \<Longrightarrow> deployed E app t \<Longrightarrow> deployed E app (ev # t)"
  using verified_later [of E t app "[ev]"] by (cases ev) (simp_all add: deployed_def)

lemma deployed_spawn: "authorised E c t \<Longrightarrow> deployed E app t \<Longrightarrow> deployed E app (Spawn c # t)"
  using verified_later [of E t app "[Spawn c]"] by (simp add: deployed_def)

lemma deployed_authorised:
  "deployed E app t \<Longrightarrow> authorised E (server_command (payload_hash (lib E) app)) t"
  "deployed E app t \<Longrightarrow> exe = lit ''/init'' \<or> (\<exists>u. current_exe (os E) u = Some exe) \<Longrightarrow>
     authorised E (attestation_command exe (payload_hash (lib E) app)) t"
  unfolding deployed_def authorised_def by blast+

lemma remount_flags:
  "(MS_REMOUNT OR MS_RDONLY OR MS_NOSUID OR MS_NODEV) AND MS_REMOUNT = MS_REMOUNT"
  "(MS_REMOUNT OR MS_NOSUID OR MS_NODEV OR MS_NOEXEC) AND MS_REMOUNT = MS_REMOUNT"
  "MS_REMOUNT \<noteq> 0"
  by (simp_all add: ms_defs)

lemma deployed_lockdown:
  assumes "verified E t app" and "above_floor (last_clock E t)" and "spawns_authorised E t"
    and "fs_ok (os E) t"
    and "lockdown_filesystem E (Set_Permissions TARGET_PATH mode # Write_File TARGET_PATH app # t) = (Ok u, t')"
  shows "deployed E app t'"
proof -
  let ?t = "Set_Permissions TARGET_PATH mode # Write_File TARGET_PATH app # t"
  note t' = lockdown_filesystem_trace [OF assms(5)]
  have "verified E t' app"
    using verified_later [OF assms(1), of "take 5 t'"] by (simp add: t')
  moreover have "payload_file E t' = Some app" "last_clock E t' = last_clock E t"
    "spawns_authorised E t' = spawns_authorised E t"
    by (simp_all add: t' remount_flags assms(4))
  moreover have "has_flag MS_RDONLY (mount_flags E t' PAYLOAD_DIR)"
    "has_flag MS_NOEXEC (mount_flags E t' (lit ''/tmp''))" "has_flag MS_NOEXEC (mount_flags E t' (lit ''/run''))"
    by (simp_all add: lockdown_filesystem_mounts [OF assms(5)] locked_def has_flag_def PAYLOAD_DIR_def ms_defs)
  ultimately show ?thesis
    using assms(2,3) by (simp add: deployed_def)
qed

lemma store_payload_deployed:
  assumes "verified E t app" and "above_floor (last_clock E t)" and "spawns_authorised E t"
    and "store_payload app E t = (Ok u :: ('e, unit) result, t')"
  shows "deployed E app t'"
proof -
  obtain mode where "fs_ok (os E) t"
    and "lockdown_filesystem E (Set_Permissions TARGET_PATH mode # Write_File TARGET_PATH app # t) =
      (Ok u :: ('e, unit) result, t')"
    using assms(4) by (auto simp: store_payload_def bind_Ok_iff or_shutdown_eq split: if_splits)
  then show ?thesis
    using deployed_lockdown [OF assms(1-3)] by blast
qed

lemma triple_spawn:
  assumes "\<And>t. deployed E app t \<Longrightarrow> authorised E c t"
  shows "triple E (deployed E app) (spawn why c) (\<lambda>_. deployed E app) (\<lambda>_. deployed E app) (deployed E app)"
  using assms unfolding triple_def spawn_def
  by (auto simp: bind_eq panic_shutdown_def deployed_spawn deployed_idle split: option.splits)

lemma triple_idle:
  "idle ev \<Longrightarrow> triple E (deployed E app) (call ev answer) (\<lambda>_. deployed E app) B A"
  by (rule triple_call) (rule deployed_idle)

lemma start_children_deployed:
  "triple E (deployed E app) (start_children (payload_hash (lib E) app) :: ('e, u32 \<times> u32) io)
     (\<lambda>_. deployed E app) (\<lambda>_. deployed E app) (deployed E app)"
proof -
  have exe: "triple E (deployed E app) (call Current_Exe (\<lambda>E. current_exe (os E)))
      (\<lambda>exe t. deployed E app t \<and> (exe = None \<or> (\<exists>u. current_exe (os E) u = exe)))
      (\<lambda>_. deployed E app) (deployed E app)"
    by (rule triple_call) (auto intro: deployed_idle)
  have attest: "triple E (\<lambda>t. deployed E app t \<and> (exe = None \<or> (\<exists>u. current_exe (os E) u = exe)))
      (spawn Spawn_Attestation_Failed
        (attestation_command (case exe of Some path \<Rightarrow> path | None \<Rightarrow> lit ''/init'') (payload_hash (lib E) app)))
      (\<lambda>_. deployed E app) (\<lambda>_. deployed E app) (deployed E app)" for exe
  proof (cases "exe = None \<or> (\<exists>u. current_exe (os E) u = exe)")
    case True
    then have "authorised E (attestation_command (case exe of Some path \<Rightarrow> path | None \<Rightarrow> lit ''/init'')
        (payload_hash (lib E) app)) t" if "deployed E app t" for t
      using that by (intro deployed_authorised(2)) (auto split: option.splits)
    from triple_spawn [OF this] True show ?thesis by simp
  qed (auto simp: triple_def)
  show ?thesis
    unfolding start_children_def
    by (rule triple_bind [OF triple_spawn], erule deployed_authorised,
        rule triple_bind [OF triple_idle], simp,
        rule triple_bind [where Q = "\<lambda>_. deployed E app"], rule triple_if,
        rule triple_idle, simp, rule triple_pure, simp_all,
        rule triple_bind [OF exe], rule triple_bind [OF attest], rule triple_pure, simp_all)
qed

lemma triple_snd:
  assumes "triple E P m (\<lambda>_. R) (\<lambda>_. R) R" and "P t"
  shows "R (snd (m E t))"
proof -
  obtain r t' where "m E t = (r, t')" by (metis surj_pair)
  with assms show ?thesis
    by (cases r) (auto dest: triple_Ok triple_Err triple_Panic)
qed

lemma emits_spawns_authorised:
  "emits E no_spawn m \<Longrightarrow> m E t = (r, t') \<Longrightarrow> spawns_authorised E t' = spawns_authorised E t"
  by (metis emitsD spawns_authorised_no_spawn)

lemma boot_spawns_authorised:
  assumes "spawns_authorised E t"
  shows "spawns_authorised E (snd (boot E t :: ('e, u32 \<times> u32) result \<times> trace))"
proof -
  obtain r t1 where acq: "acquire_payload E t = (r :: ('e, bytes \<times> bytes) result, t1)" by (metis surj_pair)
  have s1: "spawns_authorised E t1"
    using emits_spawns_authorised [OF acquire_payload_no_spawn acq] assms by simp
  show ?thesis
  proof (cases r)
    case (Ok ah)
    obtain app h where ah: "ah = (app, h)" by (metis surj_pair)
    note ok = acquire_payload_Ok [OF acq [unfolded Ok ah]]
    obtain r2 t2 where store: "store_payload app E t1 = (r2 :: ('e, unit) result, t2)" by (metis surj_pair)
    have boot: "(boot :: ('e, u32 \<times> u32) io) E t =
        bind (store_payload app) (\<lambda>_. start_children h) E t1"
      using acq by (simp add: boot_def Ok ah)
    show ?thesis
    proof (cases r2)
      case (Ok u)
      then have "deployed E app t2"
        using store_payload_deployed [OF _ _ s1] ok store by blast
      from triple_snd [OF start_children_deployed [where 'e = 'e] this]
      show ?thesis using store ok by (simp add: boot Ok deployed_def)
    qed (use emits_spawns_authorised [OF emits_weaken [OF store_payload_inert inert_no_spawn] store] s1 store in \<open>simp_all add: boot\<close>)
  qed (use s1 acq in \<open>simp_all add: boot_def\<close>)
qed




section \<open>The result of the boot\<close>

lemma spawn_Ok_iff:
  "spawn why c E t = (Ok pid, t') \<longleftrightarrow> spawn_pid (os E) t = Some pid \<and> t' = Spawn c # t"
  by (auto simp: spawn_def bind_Ok_iff split: option.splits)

lemma start_children_Ok:
  assumes "start_children h E t = (Ok (child, attest) :: ('e, u32 \<times> u32) result, t')"
  shows "\<exists>exe u. t' = Spawn (attestation_command exe h) # u @ Spawn (server_command h) # t \<and>
    spawn_pid (os E) t = Some child \<and> spawn_pid (os E) (u @ Spawn (server_command h) # t) = Some attest"
proof -
  let ?dev = "lit ''/dev/sev-guest''" and ?s = "Spawn (server_command h) # t"
  let ?exe = "\<lambda>w. case current_exe (os E) w of Some path \<Rightarrow> path | None \<Rightarrow> lit ''/init''"
  obtain w where "w = [Path_Exists ?dev] \<or> (\<exists>mode. w = [Set_Permissions ?dev mode, Path_Exists ?dev])"
    and child: "spawn_pid (os E) t = Some child"
    and attest: "spawn Spawn_Attestation_Failed (attestation_command (?exe (w @ ?s)) h) E
        (Current_Exe # w @ ?s) = (Ok attest :: ('e, u32) result, t')"
    using assms
    by (auto simp: start_children_def bind_Ok_iff spawn_Ok_iff split: if_splits)
  then show ?thesis
    by (intro exI [of _ "?exe (w @ ?s)"] exI [of _ "Current_Exe # w"]) (simp add: spawn_Ok_iff)
qed

lemma boot_Ok:
  assumes "boot E t = (Ok (child, attest) :: ('e, u32 \<times> u32) result, t')"
  shows "\<exists>app exe u v. t' = Spawn (attestation_command exe (payload_hash (lib E) app)) # u @
      Spawn (server_command (payload_hash (lib E) app)) # v \<and> verified E v app \<and>
    spawn_pid (os E) v = Some child \<and>
    spawn_pid (os E) (u @ Spawn (server_command (payload_hash (lib E) app)) # v) = Some attest"
proof -
  obtain app h t1 t2 where acq: "acquire_payload E t = (Ok (app, h) :: ('e, bytes \<times> bytes) result, t1)"
    and store: "store_payload app E t1 = (Ok () :: ('e, unit) result, t2)"
    and start: "start_children h E t2 = (Ok (child, attest) :: ('e, u32 \<times> u32) result, t')"
    using assms by (auto simp: boot_def bind_Ok_iff)
  note ok = acquire_payload_Ok [OF acq]
  obtain p where "t2 = p @ t1" using store_payload_inert store by (rule emitsD)
  then have "verified E t2 app" using ok verified_later by blast
  with start_children_Ok [OF start] ok show ?thesis by blast
qed

section \<open>The checks of the payload\<close>

lemma good_answer_unique: "good_answer answer body \<Longrightarrow> good_answer answer body' \<Longrightarrow> body = body'"
  by (auto simp: good_answer_def)

text \<open>The outside answers every request for a URL in the same way.\<close>

definition serves :: "env \<Rightarrow> bytes \<Rightarrow> http_answer \<Rightarrow> bool" where
  "serves E url answer \<longleftrightarrow> (\<forall>t. http_get (net E) t url = answer)"

lemma download_serves:
  assumes "serves E url answer"
  shows "(\<exists>t'. download_with_retry url desc E t = (Ok body :: ('e, bytes) result, t')) \<longleftrightarrow> good_answer answer body"
proof
  assume "\<exists>t'. download_with_retry url desc E t = (Ok body :: ('e, bytes) result, t')"
  then show "good_answer answer body"
    using download_served assms unfolding served_def serves_def by metis
next
  assume "good_answer answer body"
  moreover have "[1..<Suc MAX_DOWNLOAD_RETRIES] = 1 # [2..<Suc MAX_DOWNLOAD_RETRIES]"
    by (simp add: MAX_DOWNLOAD_RETRIES_def upt_conv_Cons)
  ultimately show "\<exists>t'. download_with_retry url desc E t = (Ok body :: ('e, bytes) result, t')"
    using assms download_attempts_good unfolding download_with_retry_def serves_def by metis
qed

text \<open>The payload and the hash are acceptable.\<close>

definition acceptable :: "crypto_lib \<Rightarrow> http_answer \<Rightarrow> http_answer \<Rightarrow> http_answer \<Rightarrow> bytes \<Rightarrow> bool" where
  "acceptable L binary hash signature app \<longleftrightarrow>
     good_answer binary app \<and>
     (\<exists>h. good_answer hash h \<and> payload_hash L app = trim (from_utf8_lossy h)) \<and>
     (\<exists>s. good_answer signature s \<and> ecdsa_p384_verify L PUBLIC_KEY_BYTES app s)"

lemma fetch_payload_iff:
  assumes "serves E BINARY_URL binary" and "serves E HASH_URL hash" and "serves E SIGNATURE_URL signature"
  shows "(\<exists>t'. fetch_payload E t = (Ok (app, h) :: ('e, bytes \<times> bytes) result, t')) \<longleftrightarrow>
    acceptable (lib E) binary hash signature app \<and> h = payload_hash (lib E) app"
proof
  assume "\<exists>t'. fetch_payload E t = (Ok (app, h) :: ('e, bytes \<times> bytes) result, t')"
  then obtain t' where run: "fetch_payload E t = (Ok (app, h) :: ('e, bytes \<times> bytes) result, t')" by blast
  have "served E t' url body \<Longrightarrow> serves E url answer \<Longrightarrow> good_answer answer body" for url body answer
    by (auto simp: served_def serves_def)
  with fetch_payload_Ok [OF run] assms
  show "acceptable (lib E) binary hash signature app \<and> h = payload_hash (lib E) app"
    unfolding verified_def acceptable_def by blast
next
  assume a: "acceptable (lib E) binary hash signature app \<and> h = payload_hash (lib E) app"
  then obtain hx sx where good: "good_answer binary app" "good_answer hash hx" "good_answer signature sx"
    and ok: "payload_hash (lib E) app = trim (from_utf8_lossy hx)"
      "ecdsa_p384_verify (lib E) PUBLIC_KEY_BYTES app sx" "h = payload_hash (lib E) app"
    by (auto simp: acceptable_def)
  obtain t1 t2 t3 where
    "download_with_retry BINARY_URL (lit ''production binary'') E t = (Ok app :: ('e, bytes) result, t1)"
    "download_with_retry HASH_URL (lit ''server hash'') E t1 = (Ok hx :: ('e, bytes) result, t2)"
    "download_with_retry SIGNATURE_URL (lit ''cryptographic signature'') E t2 = (Ok sx :: ('e, bytes) result, t3)"
    using download_serves [where 'e = 'e, OF assms(1)] download_serves [where 'e = 'e, OF assms(2)]
      download_serves [where 'e = 'e, OF assms(3)] good by metis
  then have "fetch_payload E t = (Ok (app, h) :: ('e, bytes \<times> bytes) result, t3)"
    using ok by (simp add: fetch_payload_def Let_def or_shutdown_eq)
  then show "\<exists>t'. fetch_payload E t = (Ok (app, h) :: ('e, bytes \<times> bytes) result, t')" by blast
qed

section \<open>The sources of the time\<close>

lemma query_mullvad_Some:
  assumes "query_mullvad_secure_date tls E t = (Ok (Some d) :: ('e, u64 option) result, t')"
  shows "\<exists>ip u date. t' = Http_Get_Pinned (lit ''https://am.i.mullvad.net/'') mullvad_host (ip, 443) #
      Build_Http_Client tls 5 None # u \<and>
    http_date (net E) (Build_Http_Client tls 5 None # u) = Some (Some date) \<and> parse_http_date date = Some d"
  using assms
  by (auto simp: query_mullvad_secure_date_def Let_def bind_Ok_iff header_text_def bind_eq_Some_conv
      split: if_splits)

lemma resolve_servers_members:
  "resolve_servers resolved fallback servers E t =
       (Ok (resolved', fallback') :: ('e, (roughtime_server \<times> ip_addr) list \<times> u64 option) result, t') \<Longrightarrow>
     fst ` set resolved' \<subseteq> fst ` set resolved \<union> set servers \<and> (fallback = None \<longrightarrow> fallback' = None)"
proof (induction servers arbitrary: resolved fallback t)
  case (Cons srv servers)
  from Cons.prems consider
      (Ok) ip u where "resolve_servers (resolved @ [(srv, ip)]) fallback servers E u =
        (Ok (resolved', fallback') :: ('e, (roughtime_server \<times> ip_addr) list \<times> u64 option) result, t')"
    | (Err) ip u where "resolve_servers (resolved @ [(srv, ip)]) fallback servers E u =
        (Ok (resolved', fallback') :: ('e, (roughtime_server \<times> ip_addr) list \<times> u64 option) result, t')"
    | (Skip) u where "resolve_servers resolved fallback servers E u =
        (Ok (resolved', fallback') :: ('e, (roughtime_server \<times> ip_addr) list \<times> u64 option) result, t')"
    by (auto simp: on_result_Ok_iff resolve_domain_via_dnscrypt_def bind_Ok_iff split: option.splits)
  then show ?case
  proof cases
    case Skip
    with Cons.IH show ?thesis by (simp add: le_supI2 subset_insertI2)
  qed (drule Cons.IH, simp)+
qed simp

text \<open>
  The adopted time is a consensus of Roughtime servers of the built-in list, or the seconds of a date
  header of the fallback service, read over a client with the hardened configuration.
\<close>

definition date_evidence :: "env \<Rightarrow> trace \<Rightarrow> u64 \<Rightarrow> bool" where
  "date_evidence E t m \<longleftrightarrow>
     (\<exists>ip u date d. t = Http_Get_Pinned (lit ''https://am.i.mullvad.net/'') mullvad_host (ip, 443) #
         Build_Http_Client hardened_tls 5 None # u \<and>
       http_date (net E) (Build_Http_Client hardened_tls 5 None # u) = Some (Some date) \<and>
       parse_http_date date = Some d \<and> m = d * 1000000)"

lemma secure_time_sources:
  assumes "secure_time E t = (Ok m :: ('e, u64) result, t')"
  shows "(\<exists>servers. fst ` set servers \<subseteq> set ROUGHTIME_SERVERS \<and> consensus_evidence E servers m) \<or>
    date_evidence E t' m"
proof -
  obtain servers fallback t1 where
    res: "resolve_servers [] None ROUGHTIME_SERVERS E t =
      (Ok (servers, fallback) :: ('e, (roughtime_server \<times> ip_addr) list \<times> u64 option) result, t1)"
    and obt: "obtain_time servers fallback E t1 = (Ok (Some m) :: ('e, u64 option) result, t')"
    using assms by (auto simp: secure_time_def bind_Ok_iff split: option.splits)
  have sub: "fst ` set servers \<subseteq> set ROUGHTIME_SERVERS" and none: "fallback = None"
    using resolve_servers_members [OF res] by simp_all
  from obt consider (roughtime) t2 where "query_roughtime servers E t1 = (Ok m, t2)"
    | (date) t2 d where "m = d * 1000000"
      "query_mullvad_secure_date hardened_tls E t2 = (Ok (Some d) :: ('e, u64 option) result, t')"
    by (auto simp: obtain_time_def on_result_Ok_iff none bind_Ok_iff)
  then show ?thesis
  proof cases
    case roughtime
    then show ?thesis using query_roughtime_evidence sub by blast
  next
    case date
    then show ?thesis using query_mullvad_Some unfolding date_evidence_def by metis
  qed
qed

section \<open>Every setting of the clock\<close>

text \<open>Where a time comes from that is adopted after the trace \<open>u\<close>.\<close>

definition time_source :: "env \<Rightarrow> trace \<Rightarrow> u64 \<Rightarrow> bool" where
  "time_source E u m \<longleftrightarrow>
     (\<exists>servers. fst ` set servers \<subseteq> set ROUGHTIME_SERVERS \<and> consensus_evidence E servers m) \<or>
     date_evidence E u m"

definition justified_setting :: "env \<Rightarrow> trace \<Rightarrow> u64 \<Rightarrow> u64 \<Rightarrow> bool" where
  "justified_setting E u secs nsecs \<longleftrightarrow>
     (\<exists>v. u = Read_Clock # v \<and> clock_now (net E) v < LAST_KNOWN_GOOD_TIME_SECS \<and>
        secs = LAST_KNOWN_GOOD_TIME_SECS \<and> nsecs = 1000000) \<or>
     (\<exists>m. LAST_KNOWN_GOOD_TIME_MICROS \<le> m \<and> unat secs * 10 ^ 9 + unat nsecs = unat m * 1000 \<and>
        unat nsecs < 10 ^ 9 \<and> time_source E u m)"

fun clock_justified :: "env \<Rightarrow> trace \<Rightarrow> bool" where
  "clock_justified E [] = True"
| "clock_justified E (ev # t) \<longleftrightarrow>
     (case ev of Clock_Set secs nsecs \<Rightarrow> justified_setting E t secs nsecs | _ \<Rightarrow> True) \<and> clock_justified E t"

definition no_clock :: "event \<Rightarrow> bool" where
  "no_clock ev \<longleftrightarrow> (case ev of Clock_Set _ _ \<Rightarrow> False | _ \<Rightarrow> True)"

lemma inert_no_clock: "inert ev \<Longrightarrow> no_clock ev"
  by (cases ev) (simp_all add: inert_def no_clock_def)

lemma clock_justified_no_clock: "\<forall>ev\<in>set p. no_clock ev \<Longrightarrow> clock_justified E (p @ t) = clock_justified E t"
proof (induction p)
  case (Cons ev p)
  then show ?case by (cases ev) (simp_all add: no_clock_def)
qed simp

lemma clock_justifiedD: "clock_justified E (p @ Clock_Set secs nsecs # u) \<Longrightarrow> justified_setting E u secs nsecs"
  by (induction p) auto

abbreviation keeps_clock :: "env \<Rightarrow> ('e, 'a) io \<Rightarrow> bool" where
  "keeps_clock E m \<equiv>
     triple E (clock_justified E) m (\<lambda>_. clock_justified E) (\<lambda>_. clock_justified E) (clock_justified E)"

lemma emits_keeps_clock:
  assumes "emits E no_clock m"
  shows "keeps_clock E m"
  unfolding triple_def
proof (intro allI impI)
  fix t assume ok: "clock_justified E t"
  obtain r t' where run: "m E t = (r, t')" by (metis surj_pair)
  obtain p where "t' = p @ t" "\<forall>ev\<in>set p. no_clock ev" using assms run by (rule emitsD)
  then have "clock_justified E t'" using ok by (simp add: clock_justified_no_clock)
  then show "case m E t of (Ok x, t') \<Rightarrow> clock_justified E t' | (Err e, t') \<Rightarrow> clock_justified E t'
      | (Panic, t') \<Rightarrow> clock_justified E t'"
    by (simp add: run split: result.split)
qed

lemma inert_keeps_clock: "emits E inert m \<Longrightarrow> keeps_clock E m"
  by (erule emits_keeps_clock [OF emits_weaken]) (rule inert_no_clock)

lemma call_keeps_clock: "inert ev \<Longrightarrow> keeps_clock E (call ev answer)"
  by (rule inert_keeps_clock, rule emits_call)

lemma or_shutdown_keeps_clock: "keeps_clock E (or_shutdown why ok)"
  by (rule inert_keeps_clock, rule emits_or_shutdown) (simp_all add: inert_def)

lemma enforce_time_floor_keeps_clock: "keeps_clock E enforce_time_floor"
  by (simp add: triple_def enforce_time_floor_eq justified_setting_def)

lemma secure_time_source:
  "triple E (clock_justified E) (secure_time :: ('e, u64) io)
     (\<lambda>m t. clock_justified E t \<and> time_source E t m) (\<lambda>_. clock_justified E) (clock_justified E)"
  unfolding triple_def
proof (intro allI impI)
  fix t assume ok: "clock_justified E t"
  obtain r t' where run: "secure_time E t = (r :: ('e, u64) result, t')" by (metis surj_pair)
  obtain p where "t' = p @ t" "\<forall>ev\<in>set p. no_clock ev"
    using emits_weaken [OF secure_time_inert inert_no_clock] run by (rule emitsD)
  then have "clock_justified E t'" using ok by (simp add: clock_justified_no_clock)
  then show "case secure_time E t :: ('e, u64) result \<times> trace of
      (Ok m, t') \<Rightarrow> clock_justified E t' \<and> time_source E t' m | (Err e, t') \<Rightarrow> clock_justified E t'
      | (Panic, t') \<Rightarrow> clock_justified E t'"
    using secure_time_sources [where 'e = 'e, of E t _ t'] run by (cases r) (simp_all add: time_source_def)
qed

lemma adopt_time_keeps_clock:
  "triple E (\<lambda>t. clock_justified E t \<and> time_source E t m) (adopt_time m)
     (\<lambda>_. clock_justified E) (\<lambda>_. clock_justified E) (clock_justified E)"
proof -
  have "justified_setting E t (m div 1000000) ((m mod 1000000) * 1000)"
    if "\<not> m < LAST_KNOWN_GOOD_TIME_MICROS" "time_source E t m" for t
    unfolding justified_setting_def using that micros_recombine [of m]
    by (intro disjI2 exI [of _ m]) (simp only: not_less simp_thms)
  then show ?thesis
    by (simp add: triple_def adopt_time_eq panic_shutdown_def)
qed

lemma acquire_payload_keeps_clock: "keeps_clock E acquire_payload"
  unfolding acquire_payload_def
  by (rule triple_bind [OF inert_keeps_clock [OF prepare_inert]],
      rule triple_bind [OF enforce_time_floor_keeps_clock],
      rule triple_bind [OF inert_keeps_clock [OF emits_weaken [OF wait_for_entropy_emits]]],
      erule download_inert, rule triple_bind [OF call_keeps_clock],
      simp add: inert_def, 
      rule triple_bind [OF inert_keeps_clock [OF emits_weaken [OF check_network_ready_emits]]],
      erule net_setup_inert,
      rule triple_bind [OF call_keeps_clock], simp add: inert_def, rule triple_bind [OF call_keeps_clock],
      simp add: inert_def, rule triple_bind [OF or_shutdown_keeps_clock], rule triple_bind [OF secure_time_source],
      rule triple_bind [OF adopt_time_keeps_clock], rule triple_bind [OF call_keeps_clock],
      simp add: inert_def, rule triple_bind [OF or_shutdown_keeps_clock],
      rule inert_keeps_clock [OF emits_weaken [OF fetch_payload_emits]], erule download_inert)

lemma start_children_keeps_clock: "keeps_clock E (start_children hash)"
  unfolding start_children_def spawn_def
  by (intro emits_keeps_clock emits_intro) (simp_all add: no_clock_def)

lemma boot_keeps_clock: "keeps_clock E boot"
  unfolding boot_def case_prod_beta
  by (intro triple_bind [where Q = "\<lambda>_. clock_justified E"] acquire_payload_keeps_clock
      inert_keeps_clock [OF store_payload_inert] start_children_keeps_clock)

lemma clock_justified_initial: "\<forall>s n. Clock_Set s n \<notin> set t \<Longrightarrow> clock_justified E t"
  by (induction t) (auto split: event.splits)

section \<open>When the boot succeeds\<close>

text \<open>The calls to the kernel that the boot cannot do without succeed.\<close>

definition cooperative :: "env \<Rightarrow> bool" where
  "cooperative E \<longleftrightarrow>
     (\<forall>t. mount_ok (os E) t \<and> fs_ok (os E) t \<and> clock_set_ok (os E) t \<and> tls_config_ok (os E) t \<and>
        client_build_ok (net E) t \<and> spawn_pid (os E) t \<noteq> None)"

text \<open>A secure time at or above the floor is obtained.\<close>

definition time_available :: "env \<Rightarrow> bool" where
  "time_available E \<longleftrightarrow>
     (\<forall>t. \<exists>m t'. secure_time E t = (Ok m :: (unit, u64) result, t') \<and> \<not> m < LAST_KNOWN_GOOD_TIME_MICROS)"

lemma spawn_completes:
  assumes "cooperative E"
  shows "completes E (spawn why c)"
  unfolding spawn_def
proof (rule completes_call_bind)
  fix t
  obtain pid where "spawn_pid (os E) t = Some pid" using assms by (auto simp: cooperative_def)
  then show "completes E (case spawn_pid (os E) t of None \<Rightarrow> panic_shutdown why | Some p \<Rightarrow> return p)"
    by (simp add: completes_return)
qed

lemma start_children_completes: "cooperative E \<Longrightarrow> completes E (start_children h)"
  unfolding start_children_def by (intro completes_bind spawn_completes completes_intro) simp_all

lemma store_payload_completes:
  assumes "cooperative E"
  shows "completes E (store_payload app)"
proof -
  have ok: "\<forall>t. mount_ok (os E) t" "\<And>t. fs_ok (os E) t" using assms by (simp_all add: cooperative_def)
  show ?thesis
    unfolding store_payload_def
    by (intro completes_call_bind completes_bind completes_or_shutdown lockdown_filesystem_completes ok)
qed

text \<open>The acquisition succeeds when the time is there and the payload acceptable.\<close>

lemma acquire_payload_prefix:
  assumes "cooperative E" and "time_available E"
  obtains t1 where "acquire_payload E t = (fetch_payload E t1 :: (unit, bytes \<times> bytes) result \<times> trace)"
proof -
  have ok: "mount_ok (os E) u" "fs_ok (os E) u" "clock_set_ok (os E) u" "tls_config_ok (os E) u"
    "client_build_ok (net E) u" for u
    using assms(1) by (simp_all add: cooperative_def)
  let ?env = "bind prepare_system_env (\<lambda>_. bind enforce_time_floor (\<lambda>_. bind wait_for_entropy (\<lambda>_.
      bind (emit (Sleep_Ms (NETWORK_SETTLE_SECS * 1000))) (\<lambda>_. bind check_network_ready (\<lambda>_.
      emit Install_Provider))))) :: (unit, unit) io"
  have "completes E ?env"
    using ok by (intro completes_bind prepare_system_env_completes completes_intro) simp_all
  then obtain u t1 where env: "?env E t = (Ok u, t1)" using completesD by blast
  obtain m t2 where time: "secure_time E (Tls_Client_Config # t1) = (Ok m :: (unit, u64) result, t2)"
      "\<not> m < LAST_KNOWN_GOOD_TIME_MICROS"
    using assms(2) unfolding time_available_def by blast
  let ?t = "Build_Http_Client hardened_tls REQUEST_TIMEOUT_SECS (Some 30) #
      Clock_Set (m div 1000000) ((m mod 1000000) * 1000) # t2"
  have "acquire_payload E t = (fetch_payload E ?t :: (unit, bytes \<times> bytes) result \<times> trace)"
    using env time ok
    by (auto simp: acquire_payload_def bind_Ok_iff or_shutdown_eq adopt_time_eq)
  then show thesis by (rule that)
qed

lemma boot_decides:
  assumes "cooperative E" and "time_available E"
    and "serves E BINARY_URL binary" and "serves E HASH_URL hash" and "serves E SIGNATURE_URL signature"
  shows "case (boot E t :: (unit, u32 \<times> u32) result \<times> trace) of
      (Ok pids, t') \<Rightarrow> \<exists>app. acceptable (lib E) binary hash signature app
    | (Err e, t') \<Rightarrow> False
    | (Panic, t') \<Rightarrow> (\<nexists>app. acceptable (lib E) binary hash signature app) \<and> halted E t' \<and>
        (\<exists>p. t' = p @ t \<and> list_all no_spawn p)"
proof -
  obtain t1 where acq: "acquire_payload E t = (fetch_payload E t1 :: (unit, bytes \<times> bytes) result \<times> trace)"
    using assms(1,2) by (rule acquire_payload_prefix)
  note iff = fetch_payload_iff [where 'e = unit, OF assms(3-5), of t1]
  obtain r t2 where run: "acquire_payload E t = (r :: (unit, bytes \<times> bytes) result, t2)" by (metis surj_pair)
  show ?thesis
  proof (cases r)
    case (Ok ah)
    obtain app h where "ah = (app, h)" by (metis surj_pair)
    with Ok run have run': "acquire_payload E t = (Ok (app, h) :: (unit, bytes \<times> bytes) result, t2)" by simp
    then have "acceptable (lib E) binary hash signature app" using iff acq by metis
    moreover have "completes E (bind (store_payload app) (\<lambda>_. start_children h) :: (unit, u32 \<times> u32) io)"
      by (intro completes_bind store_payload_completes start_children_completes assms)
    then obtain pids t' where "bind (store_payload app) (\<lambda>_. start_children h) E t2 =
        (Ok pids :: (unit, u32 \<times> u32) result, t')"
      using completesD by blast
    ultimately show ?thesis
      using run' by (auto simp: boot_def)
  next
    case Panic
    obtain p where "t2 = p @ t" "\<forall>ev\<in>set p. no_spawn ev"
      using acquire_payload_no_spawn run by (rule emitsD)
    moreover have "halted E t2"
      using fail_closedD [OF acquire_payload_fail_closed run] Panic by simp
    moreover have "\<nexists>app. acceptable (lib E) binary hash signature app"
      using iff acq run Panic by (metis Pair_inject result.distinct(3))
    ultimately show ?thesis
      using run by (simp add: boot_def Panic list_all_iff)
  qed (use fail_closedD [OF acquire_payload_fail_closed run] in simp)
qed

section \<open>A concrete outside\<close>

text \<open>
  An outside in which nothing answers over UDP or TCP, the fallback service dates its answer one second
  after the floor, and the three files are served; with \<open>toy_lib\<close>, a payload is its own signature.
\<close>

lemma date_after_floor:
  "parse_http_date (lit ''Mon, 01 Jun 2026 00:00:01 GMT'') = Some (LAST_KNOWN_GOOD_TIME_SECS + 1)"
proof -
  have shape: "http_date_text (lit ''Mon,'') (2026, 6, 1) 0 0 1 = lit ''Mon, 01 Jun 2026 00:00:01 GMT''"
    by (simp add: http_date_text_def two_digits_def fmt_nat.simps month_names_def)
  have v: "valid_date (2026, 6, 1)"
    by (simp add: valid_date_def month_length_def)
  have "parse_http_date (http_date_text (lit ''Mon,'') (2026, 6, 1) 0 0 1) =
      Some (of_nat (day_number (2026, 6, 1) * 86400 + 1))"
    using timestamp_eq [OF v, of 0 0 1] parse_http_date_text [of 6 1 2026 0 0 1 "lit ''Mon,''"]
    by (simp add: plain_def)
  moreover have "[Suc 0..<6] = [1, 2, 3, 4, 5]" by code_simp
  then have "day_number (2026, 6, 1) = 20605"
    by (simp add: day_number_def year_length_def month_length_def leap_def)
  ultimately show ?thesis
    unfolding shape by (simp add: LAST_KNOWN_GOOD_TIME_SECS_def)
qed

definition toy_app :: bytes where "toy_app = [7]"

definition toy_hash :: bytes where "toy_hash = replicate 96 0x30"

definition toy_boot :: env where
  "toy_boot = (toy_env (toy_net \<lparr>
     http_get := (\<lambda>t url. Answer 200 (if url = HASH_URL then [toy_hash, [0x0A]] else [toy_app]) True),
     http_date := (\<lambda>t. Some (Some (lit ''Mon, 01 Jun 2026 00:00:01 GMT'')))\<rparr>))
     \<lparr>lib := toy_lib
        \<lparr>sha384 := (\<lambda>m. 0), base16_lower_encode := hex_encode, base16_mixed_decode := hex_decode\<rparr>\<rparr>"

lemma toy_boot_simps [simp]:
  "os toy_boot = toy_os" "udp_recv (net toy_boot) t = Recv_Timeout"
  "udp_bind_ok (net toy_boot) t" "udp_send_ok (net toy_boot) t" "tcp_connect (net toy_boot) t = Connected"
  "tcp_write_ok (net toy_boot) t" "\<not> tcp_read_ok (net toy_boot) t" "client_build_ok (net toy_boot) t"
  "rand_ok (net toy_boot) t"
  "http_date (net toy_boot) t = Some (Some (lit ''Mon, 01 Jun 2026 00:00:01 GMT''))"
  "http_get (net toy_boot) t url = Answer 200 (if url = HASH_URL then [toy_hash, [0x0A]] else [toy_app]) True"
  by (simp_all add: toy_boot_def toy_net_def toy_env_def)

lemma toy_boot_checks:
  "payload_hash (lib toy_boot) app = toy_hash" "ecdsa_p384_verify (lib toy_boot) key app app"
  "trim (from_utf8_lossy (toy_hash @ [0x0A])) = toy_hash"
proof -
  have "hex_encode (replicate n 0) = replicate (2 * n) 0x30" for n
    by (induction n) (simp_all add: hex_encode_def hex_digit_def)
  moreover have "to_le n 0 = replicate n 0" for n by (induction n) simp_all
  ultimately show "payload_hash (lib toy_boot) app = toy_hash"
    by (simp add: toy_boot_def payload_hash_def toy_hash_def array_bytes_def)
  show "ecdsa_p384_verify (lib toy_boot) key app app"
    by (simp add: toy_boot_def toy_lib_def)
  have "from_utf8_lossy (toy_hash @ [0x0A]) = toy_hash @ [0x0A]"
    by (rule from_utf8_lossy_id) (auto simp: toy_hash_def)
  then show "trim (from_utf8_lossy (toy_hash @ [0x0A])) = toy_hash"
    by (simp add: trim_plain_newline toy_hash_def plain_def)
qed

lemma toy_boot_dns: "\<exists>e t'. send_dns_query addr query False toy_boot t = (Err e :: (dns_error, bytes) result, t')"
  by (simp add: send_dns_query_def send_dns_query_udp_def send_dns_query_tcp_def on_result_eq bind_eq
      tcp_write_all_def tcp_read_exact_def numeral_2_eq_2)

lemma toy_boot_resolvers: "\<exists>e t'. try_resolvers rs toy_boot t = (Err e :: (dns_error, client_state) result, t')"
proof (induction rs arbitrary: t)
  case (Cons r rs)
  obtain e u where "send_dns_query (hr_ip r) (build_txt_record_query (hr_provider_name r)) False toy_boot t =
      (Err e :: (dns_error, bytes) result, u)"
    using toy_boot_dns by blast
  with Cons.IH [of u] show ?case by (simp add: on_result_eq)
qed simp

lemma toy_boot_roughtime: "query_single_roughtime ip port key toy_boot t \<noteq> (Ok m, t')"
proof -
  have "rt_exchange addr req n toy_boot u \<noteq> (Ok (Some data) :: (rt_query_error, bytes option) result, u')" for addr req n u data u'
    using rt_exchange_received [of addr req n toy_boot u data u'] by auto
  then show ?thesis by (simp add: query_single_Ok_iff)
qed

lemma toy_boot_date:
  "\<exists>t'. query_mullvad_secure_date tls toy_boot t =
     (Ok (Some (LAST_KNOWN_GOOD_TIME_SECS + 1)) :: ('e, u64 option) result, t')"
proof -
  obtain e t1 where "resolve_domain_via_dnscrypt mullvad_host toy_boot t =
      (Err e :: (dns_error, ip_addr \<times> u64 option) result, t1)"
    using toy_boot_resolvers [of HARDCODED_RESOLVERS t]
    by (auto simp: resolve_domain_via_dnscrypt_def establish_dnscrypt_session_def)
  moreover have "header_text (lit ''Mon, 01 Jun 2026 00:00:01 GMT'') = Some (lit ''Mon, 01 Jun 2026 00:00:01 GMT'')"
    by (simp add: header_text_def)
  ultimately show ?thesis
    using date_after_floor
    by (simp add: query_mullvad_secure_date_def attempt_def on_result_eq Let_def bind_eq)
qed

lemma toy_boot_time: "time_available toy_boot"
  unfolding time_available_def
proof
  fix t
  obtain r t1 where res: "resolve_servers [] None ROUGHTIME_SERVERS toy_boot t =
      (Ok r :: (unit, (roughtime_server \<times> ip_addr) list \<times> u64 option) result, t1)"
    using completesD [OF resolve_servers_completes] by blast
  obtain servers fallback where r: "r = (servers, fallback)" by (metis surj_pair)
  have none: "fallback = None" using resolve_servers_members [OF res [unfolded r]] by simp
  obtain q t2 where q: "query_roughtime servers toy_boot t1 = (q, t2)" by (metis surj_pair)
  have "q \<noteq> Ok m" for m
    using query_roughtime_evidence [of servers toy_boot t1 m t2] q
    unfolding consensus_evidence_def by (auto simp: ex_in_conv [symmetric] dest!: bspec split: prod.splits)
  then obtain e where e: "q = Err e"
    using safeD [OF query_roughtime_safe q] by (cases q) auto
  obtain t3 where "query_mullvad_secure_date hardened_tls toy_boot t2 =
      (Ok (Some (LAST_KNOWN_GOOD_TIME_SECS + 1)) :: (unit, u64 option) result, t3)"
    using toy_boot_date by blast
  then have "secure_time toy_boot t = (Ok ((LAST_KNOWN_GOOD_TIME_SECS + 1) * 1000000) :: (unit, u64) result, t3)"
    using res q by (simp add: secure_time_def obtain_time_def r none e on_result_eq)
  moreover have "\<not> (LAST_KNOWN_GOOD_TIME_SECS + 1) * 1000000 < LAST_KNOWN_GOOD_TIME_MICROS"
    by (simp add: LAST_KNOWN_GOOD_TIME_SECS_def LAST_KNOWN_GOOD_TIME_MICROS_def)
  ultimately show "\<exists>m t'. secure_time toy_boot t = (Ok m :: (unit, u64) result, t') \<and>
      \<not> m < LAST_KNOWN_GOOD_TIME_MICROS" by blast
qed

lemma toy_boot_hypotheses:
  "cooperative toy_boot" "serves toy_boot BINARY_URL (Answer 200 [toy_app] True)"
  "serves toy_boot HASH_URL (Answer 200 [toy_hash, [0x0A]] True)"
  "serves toy_boot SIGNATURE_URL (Answer 200 [toy_app] True)"
  by (simp_all add: cooperative_def serves_def toy_os_def BINARY_URL_def HASH_URL_def SIGNATURE_URL_def)

lemma toy_boot_acceptable:
  "acceptable (lib toy_boot) (Answer 200 [toy_app] True) (Answer 200 [toy_hash, [0x0A]] True)
     (Answer 200 [toy_app] True) toy_app"
proof -
  have "good_answer (Answer 200 [toy_app] True) toy_app"
    "good_answer (Answer 200 [toy_hash, [0x0A]] True) (toy_hash @ [0x0A])"
    by (simp_all add: good_answer_def toy_app_def toy_hash_def)
  then show ?thesis
    unfolding acceptable_def using toy_boot_checks by metis
qed

lemma toy_boot_runs: "\<exists>child attest t'. boot toy_boot t = (Ok (child, attest) :: (unit, u32 \<times> u32) result, t')"
proof -
  obtain r t' where run: "boot toy_boot t = (r :: (unit, u32 \<times> u32) result, t')" by (metis surj_pair)
  from boot_decides [OF toy_boot_hypotheses(1) toy_boot_time toy_boot_hypotheses(2-4), of t] run
    toy_boot_acceptable
  have "\<exists>pids. r = Ok pids" by (cases r) auto
  with run show ?thesis by auto
qed

section \<open>Properties\<close>



text \<open>
  C15. The boot never sets the clock without a reason. Every setting, tried or done, is one of two: the
  floor of 1 June 2026 right after a reading of the clock that was below it, so that a later clock is
  never moved back to the floor; or the exact seconds and nanoseconds of a time at or above the floor
  that is a consensus of midpoints with evidence under keys of the built-in list, or the date of the
  fallback service read last.
\<close>

theorem clock_set_justified:
  assumes "\<forall>s n. Clock_Set s n \<notin> set t"
    and "snd (boot E t :: ('e, u32 \<times> u32) result \<times> trace) = p @ Clock_Set secs nsecs # u"
  shows "(\<exists>v. u = Read_Clock # v \<and> clock_now (net E) v < LAST_KNOWN_GOOD_TIME_SECS \<and>
      parse_http_date (lit ''Mon, 01 Jun 2026 00:00:00 GMT'') = Some secs \<and> nsecs = 1000000) \<or>
    (\<exists>m. LAST_KNOWN_GOOD_TIME_MICROS \<le> m \<and> unat secs * 10 ^ 9 + unat nsecs = unat m * 1000 \<and>
      unat nsecs < 10 ^ 9 \<and>
      ((\<exists>servers. fst ` set servers \<subseteq> set ROUGHTIME_SERVERS \<and> consensus_evidence E servers m) \<or>
       date_evidence E u m))"
proof -
  have "clock_justified E (snd (boot E t :: ('e, u32 \<times> u32) result \<times> trace))"
    by (rule triple_snd [OF boot_keeps_clock clock_justified_initial [OF assms(1)]])
  then have "justified_setting E u secs nsecs"
    unfolding assms(2) by (rule clock_justifiedD)
  then show ?thesis
    unfolding justified_setting_def time_source_def using floor_date by auto
qed

theorem clock_set_justified_witness:
  "\<exists>p secs nsecs u. snd (boot toy_boot [] :: (unit, u32 \<times> u32) result \<times> trace) = p @ Clock_Set secs nsecs # u \<and>
     ((\<exists>v. u = Read_Clock # v \<and> clock_now (net toy_boot) v < LAST_KNOWN_GOOD_TIME_SECS) \<or>
      (\<exists>m. LAST_KNOWN_GOOD_TIME_MICROS \<le> m \<and> unat secs * 10 ^ 9 + unat nsecs = unat m * 1000))"
proof -
  obtain child attest t' where run: "boot toy_boot [] = (Ok (child, attest) :: (unit, u32 \<times> u32) result, t')"
    using toy_boot_runs by blast
  then obtain c u where t': "t' = [] @ Spawn c # u" using boot_Ok by fastforce
  have "authorised toy_boot c u"
    using spawns_authorisedD [of toy_boot "[]" c u] boot_spawns_authorised [of toy_boot "[]", where 'e = unit] run t' by simp
  then obtain secs nsecs where "last_clock toy_boot u = Some (secs, nsecs)"
    by (auto simp: authorised_def above_floor_def split: option.splits)
  then obtain q v where "u = q @ Clock_Set secs nsecs # v" using last_clock_event by blast
  then have s: "snd (boot toy_boot [] :: (unit, u32 \<times> u32) result \<times> trace) = (Spawn c # q) @ Clock_Set secs nsecs # v"
    using run t' by simp
  have "\<forall>s n. Clock_Set s n \<notin> set []" by simp
  from clock_set_justified [OF this s] s show ?thesis by blast
qed

text \<open>
  C2. The boot fails closed. Either it ends with both processes running, the server started with the
  hash of a verified payload and the attestation server with the same hash, and their process ids
  are the result; or the machine has been powered off (with an exit when even that returned), as the
  last thing done. There is no other outcome.
\<close>

theorem boot_fail_closed:
  "case (boot E t :: ('e, u32 \<times> u32) result \<times> trace) of
      (Ok (child, attest), t') \<Rightarrow> \<exists>app exe u v.
         t' = Spawn (attestation_command exe (payload_hash (lib E) app)) # u @
           Spawn (server_command (payload_hash (lib E) app)) # v \<and> verified E v app \<and>
         spawn_pid (os E) v = Some child \<and>
         spawn_pid (os E) (u @ Spawn (server_command (payload_hash (lib E) app)) # v) = Some attest
    | (Err e, t') \<Rightarrow> False
    | (Panic, t') \<Rightarrow> halted E t'"
proof -
  obtain r t' where run: "boot E t = (r :: ('e, u32 \<times> u32) result, t')" by (metis surj_pair)
  show ?thesis
  proof (cases r)
    case (Ok pids)
    obtain child attest where "pids = (child, attest)" by (metis surj_pair)
    with run Ok boot_Ok show ?thesis by simp
  qed (use fail_closedD [OF boot_fails_closed run] run in simp_all)
qed

text \<open>
  C38. When the kernel's calls succeed, a secure time is available and the outside serves each URL
  consistently, the boot succeeds if the served payload is acceptable, that is non-empty, within the
  size limit, with the served hash and a valid served signature, and only then; otherwise it powers
  the machine off without having started anything.
\<close>

theorem boot_decides_exactly:
  assumes "cooperative E" and "time_available E"
    and "serves E BINARY_URL binary" and "serves E HASH_URL hash" and "serves E SIGNATURE_URL signature"
  shows "case (boot E t :: (unit, u32 \<times> u32) result \<times> trace) of
      (Ok pids, t') \<Rightarrow> \<exists>app. acceptable (lib E) binary hash signature app
    | (Err e, t') \<Rightarrow> False
    | (Panic, t') \<Rightarrow> (\<nexists>app. acceptable (lib E) binary hash signature app) \<and> halted E t' \<and>
        (\<exists>p. t' = p @ t \<and> list_all no_spawn p)"
  using assms by (rule boot_decides)

theorem boot_decides_exactly_witness:
  "\<exists>pids t'. boot toy_boot [] = (Ok pids :: (unit, u32 \<times> u32) result, t')"
proof -
  obtain r t' where run: "boot toy_boot [] = (r :: (unit, u32 \<times> u32) result, t')" by (metis surj_pair)
  from boot_decides_exactly [OF toy_boot_hypotheses(1) toy_boot_time toy_boot_hypotheses(2-4), of "[]"] run
    toy_boot_acceptable
  have "\<exists>pids. r = Ok pids" by (cases r) auto
  with run show ?thesis by auto
qed

text \<open>
  C39. The time that is adopted is a consensus of midpoints, each with evidence under the key of a
  server of the built-in list, or the \<open>Date\<close> header of the fallback service, read over a client with
  the hardened TLS configuration; never the unauthenticated time of a resolver.
\<close>

theorem boot_time_sources:
  assumes "secure_time E t = (Ok m :: ('e, u64) result, t')"
  shows "(\<exists>servers. fst ` set servers \<subseteq> set ROUGHTIME_SERVERS \<and> consensus_evidence E servers m) \<or>
    date_evidence E t' m"
  using assms by (rule secure_time_sources)

theorem boot_time_sources_witness:
  "\<exists>m t'. secure_time toy_boot [] = (Ok m :: (unit, u64) result, t') \<and>
     ((\<exists>servers. consensus_evidence toy_boot servers m) \<or> date_evidence toy_boot t' m)"
proof -
  obtain m t' where run: "secure_time toy_boot [] = (Ok m :: (unit, u64) result, t')"
    using toy_boot_time unfolding time_available_def by blast
  from boot_time_sources [OF run] run show ?thesis by blast
qed

text \<open>
  Adopting a time sets the clock to it exactly: seconds and nanoseconds together are the given
  microseconds, with fewer than \<open>10 ^ 9\<close> nanoseconds; a time below the floor leaves the clock alone and
  powers the machine off, as does a clock that cannot be set.
\<close>

theorem time_adopted_exactly:
  "\<exists>secs nsecs. unat secs * 10 ^ 9 + unat nsecs = unat m * 1000 \<and> unat nsecs < 10 ^ 9 \<and>
     adopt_time m E t =
       (if m < LAST_KNOWN_GOOD_TIME_MICROS then panic_shutdown (Time_Before_Floor m) E t
        else if clock_set_ok (os E) t then (Ok (), Clock_Set secs nsecs # t)
        else panic_shutdown Set_Clock_Failed E (Clock_Set secs nsecs # t))"
  unfolding adopt_time_eq
  by (rule exI [of _ "m div 1000000"], rule exI [of _ "(m mod 1000000) * 1000"])
     (simp only: micros_recombine simp_thms)

end
