(* ===== verification/Watchdog.thy ===== *)
theory Watchdog
  imports World
begin

text \<open>
  The watchdog at the end of \<open>main\<close> in \<open>src/main.rs\<close>. Its two nested loops repeat one poll: reap a
  child; when there is none to reap, sleep 5 seconds; when it was the server or the attestation
  server, power off. The loops never end by themselves, so the watchdog is a step relation over polls.
\<close>

text \<open>The process ids are compared as \<open>i32\<close>; \<open>pid <= 0\<close> is signed.\<close>

definition watchdog_poll :: "u32 \<Rightarrow> u32 \<Rightarrow> ('e, unit) io" where
  "watchdog_poll child_pid attest_pid =
     bind (call Wait_Pid (\<lambda>E. wait_pid (os E))) (\<lambda>pid.
     if sint pid \<le> 0 then emit (Sleep_Ms 5000)
     else if pid = child_pid then panic_shutdown (Server_Exited pid)
     else if pid = attest_pid then panic_shutdown (Attestation_Exited pid)
     else return ())"

text \<open>The states the watchdog reaches from a trace.\<close>

inductive watchdog :: "env \<Rightarrow> u32 \<Rightarrow> u32 \<Rightarrow> trace \<Rightarrow> (unit, unit) result \<times> trace \<Rightarrow> bool"
  for E child attest t where
  start: "watchdog E child attest t (Ok (), t)"
| poll: "watchdog E child attest t (Ok u, t') \<Longrightarrow> watchdog E child attest t (watchdog_poll child attest E t')"

text \<open>The answers to the polls in the events \<open>p\<close> after \<open>t\<close>, newest first.\<close>

fun polled :: "env \<Rightarrow> trace \<Rightarrow> trace \<Rightarrow> u32 list" where
  "polled E [] t = []"
| "polled E (ev # p) t = (if ev = Wait_Pid then wait_pid (os E) (p @ t) # polled E p t else polled E p t)"

text \<open>A process whose end stops the machine.\<close>

definition critical :: "u32 \<Rightarrow> u32 \<Rightarrow> u32 \<Rightarrow> bool" where
  "critical child attest pid \<longleftrightarrow> 0 < sint pid \<and> (pid = child \<or> pid = attest)"

fun watch_event :: "event \<Rightarrow> bool" where
  "watch_event Wait_Pid = True"
| "watch_event (Sleep_Ms n) = (n = 5000)"
| "watch_event (Power_Off why) = True"
| "watch_event (Exit_Process code) = True"
| "watch_event ev = False"

definition watchdog_state :: "env \<Rightarrow> u32 \<Rightarrow> u32 \<Rightarrow> trace \<Rightarrow> (unit, unit) result \<times> trace \<Rightarrow> bool" where
  "watchdog_state E child attest t res \<longleftrightarrow>
     (\<exists>p. snd res = p @ t \<and> list_all watch_event p \<and>
        (case fst res of
           Ok u \<Rightarrow> \<not> list_ex (critical child attest) (polled E p t)
         | Err e \<Rightarrow> False
         | Panic \<Rightarrow> (\<exists>pid pids. polled E p t = pid # pids \<and> critical child attest pid \<and>
             \<not> list_ex (critical child attest) pids \<and> halted E (p @ t))))"

lemma watchdog_poll_eq:
  "watchdog_poll child attest E t =
     (let pid = wait_pid (os E) t; u = Wait_Pid # t
      in if sint pid \<le> 0 then (Ok (), Sleep_Ms 5000 # u)
         else if pid = child then panic_shutdown (Server_Exited pid) E u
         else if pid = attest then panic_shutdown (Attestation_Exited pid) E u
         else (Ok (), u))"
  by (simp add: watchdog_poll_def bind_eq Let_def)

text \<open>Every event of a poll is put before a trace.\<close>

lemma watchdog_poll_state:
  assumes "list_all watch_event p" and "\<not> list_ex (critical child attest) (polled E p t)"
  shows "watchdog_state E child attest t (watchdog_poll child attest E (p @ t))"
proof -
  let ?pid = "wait_pid (os E) (p @ t)"
  have stop: "watchdog_state E child attest t (panic_shutdown why E (Wait_Pid # p @ t))"
    if "critical child attest ?pid" for why
    using assms that unfolding watchdog_state_def panic_shutdown_def
    by (auto intro!: exI [of _ "Power_Off why # Wait_Pid # p"]
        exI [of _ "Exit_Process 1 # Power_Off why # Wait_Pid # p"])
  have go: "watchdog_state E child attest t (Ok (), q @ Wait_Pid # p @ t)"
    if "\<not> critical child attest ?pid" and "q = [] \<or> q = [Sleep_Ms 5000]" for q
    using assms that unfolding watchdog_state_def by (intro exI [of _ "q @ Wait_Pid # p"]) auto
  show ?thesis
    using stop go [of "[]"] go [of "[Sleep_Ms 5000]"]
    by (auto simp: watchdog_poll_eq Let_def critical_def)
qed

lemma watchdog_reaches: "watchdog E child attest t res \<Longrightarrow> watchdog_state E child attest t res"
proof (induction rule: watchdog.induct)
  case start
  show ?case by (simp add: watchdog_state_def)
next
  case (poll u t')
  from poll.IH obtain p where "t' = p @ t" "list_all watch_event p"
    "\<not> list_ex (critical child attest) (polled E p t)"
    by (auto simp: watchdog_state_def)
  then show ?case using watchdog_poll_state by blast
qed

section \<open>Properties\<close>

text \<open>
  C40. The watchdog powers the machine off exactly when the end of the server or of the attestation
  server is reported: in every state it reaches it has only polled and slept; it is still running if
  no reported process was one of the two, and it has powered the machine off if the last reported
  one was, none before. It never stops otherwise.
\<close>

theorem watchdog_exact:
  assumes "watchdog E child attest t (r, t')"
  shows "\<exists>p. t' = p @ t \<and> list_all watch_event p \<and>
    (case r of
       Ok u \<Rightarrow> \<not> list_ex (critical child attest) (polled E p t) \<and>
         watchdog E child attest t (watchdog_poll child attest E t')
     | Err e \<Rightarrow> False
     | Panic \<Rightarrow> (\<exists>pid pids. polled E p t = pid # pids \<and> critical child attest pid \<and>
         \<not> list_ex (critical child attest) pids \<and> halted E t'))"
proof (cases r)
  case (Ok u)
  with watchdog_reaches [OF assms] watchdog.poll [of E child attest t u t'] assms show ?thesis
    by (auto simp: watchdog_state_def)
qed (use watchdog_reaches [OF assms] in \<open>auto simp: watchdog_state_def\<close>)

theorem watchdog_exact_witness:
  "\<exists>t'. watchdog (toy_env toy_net) 2 3 [] (Ok (), t') \<and> \<not> list_ex (critical 2 3) (polled (toy_env toy_net) [Sleep_Ms 5000, Wait_Pid] [])"
proof -
  have "watchdog_poll 2 3 (toy_env toy_net) [] = (Ok (), [Sleep_Ms 5000, Wait_Pid])"
    by (simp add: watchdog_poll_eq toy_os_def)
  then have w: "watchdog (toy_env toy_net) 2 3 [] (Ok (), [Sleep_Ms 5000, Wait_Pid])"
    using watchdog.poll [OF watchdog.start] by metis
  from watchdog_exact [OF w] w show ?thesis by auto
qed

end
