(* ===== verification/Attest_Http.thy ===== *)
theory Attest_Http
  imports Rust_Str World
begin

text \<open>
  The HTTP side of the attestation server in \<open>src/attestation.rs\<close>: reading a request from a stream
  (the loop of \<open>handle_attestation_connection\<close>), deciding what it asks for, \<open>extract_query_param\<close>, the
  bodies of the answers and \<open>send_http_response\<close>.

  The lemmas show that a well-formed request is understood however it is cut into packets, that the
  parameter search is the lookup in the list of parameters, and that a client that reads the answer by
  its headers gets the status and the body back.
\<close>

section \<open>Reading a request\<close>

datatype read_state = Reading bytes | Complete bytes | Closed | Broken

text \<open>\<open>buf.windows(n).any(|w| w == pattern)\<close>.\<close>

fun has_window :: "bytes \<Rightarrow> bytes \<Rightarrow> bool" where
  "has_window pat [] = (pat = [])"
| "has_window pat (x # xs) = (starts_with (x # xs) pat \<or> has_window pat xs)"

definition crlf2 :: bytes where
  "crlf2 = [0x0D, 0x0A, 0x0D, 0x0A]"

text \<open>
  One iteration: the read delivers at most 1024 bytes, nothing at the end of the stream; \<open>Closed\<close> is
  a return without an answer, \<open>Broken\<close> a return with an error.
\<close>

definition read_step :: "bytes \<Rightarrow> stream_read \<Rightarrow> read_state" where
  "read_step buf r =
     (case r of
        Data chunk \<Rightarrow>
          if chunk = [] then Complete buf
          else let buf = buf @ take 1024 chunk in
            if length buf > 8192 then Closed
            else if has_window crlf2 buf then Complete buf
            else Reading buf
      | Stream_Error \<Rightarrow> Broken
      | Read_Timed_Out \<Rightarrow> Closed)"

fun read_loop :: "bytes \<Rightarrow> stream_read list \<Rightarrow> read_state" where
  "read_loop buf [] = Reading buf"
| "read_loop buf (r # rs) =
     (case read_step buf r of Reading buf' \<Rightarrow> read_loop buf' rs | state \<Rightarrow> state)"

section \<open>The request\<close>

fun find_param :: "bytes \<Rightarrow> bytes list \<Rightarrow> bytes option" where
  "find_param key [] = None"
| "find_param key (pair # pairs) =
     (case split_once 0x3D pair of
        Some (k, v) \<Rightarrow> if k = key then Some v else find_param key pairs
      | None \<Rightarrow> find_param key pairs)"

definition extract_query_param :: "bytes \<Rightarrow> bytes \<Rightarrow> bytes option" where
  "extract_query_param query key = find_param key (split_byte 0x26 query)"

definition valid_nonce :: "bytes \<Rightarrow> bool" where
  "valid_nonce nonce_hex \<longleftrightarrow>
     \<not> (length nonce_hex < 2 \<or> length nonce_hex > 256 \<or> \<not> length nonce_hex mod 2 = 0 \<or>
        \<not> list_all is_hexdigit nonce_hex)"

datatype request = Ignored | Invalid_Nonce | Attest bytes

definition parse_request :: "bytes \<Rightarrow> request" where
  "parse_request buf =
     (if buf = [] then Ignored else
      let request = from_utf8_lossy buf;
          first_line = (case str_lines request of [] \<Rightarrow> [] | line # _ \<Rightarrow> line);
          parts = split_whitespace first_line in
      if length parts \<noteq> 3 \<or> parts ! 0 \<noteq> lit ''GET'' \<or> \<not> starts_with (parts ! 2) (lit ''HTTP/'') then Ignored else
      let path_query = parts ! 1 in
      if \<not> starts_with path_query (lit ''/v1/attestation'') then Ignored else
      let (path, query) = (case split_once 0x3F path_query of Some (p, q) \<Rightarrow> (p, q) | None \<Rightarrow> (path_query, [])) in
      if path \<noteq> lit ''/v1/attestation'' then Ignored else
      let nonce_hex = (case extract_query_param query (lit ''nonce'') of Some v \<Rightarrow> v | None \<Rightarrow> []) in
      if valid_nonce nonce_hex then Attest nonce_hex else Invalid_Nonce)"

section \<open>The answers\<close>

definition crlf :: bytes where
  "crlf = [0x0D, 0x0A]"

definition status_text :: "nat \<Rightarrow> bytes" where
  "status_text status =
     (if status = 200 then lit ''OK''
      else if status = 400 then lit ''Bad Request''
      else if status = 429 then lit ''Too Many Requests''
      else if status = 404 then lit ''Not Found''
      else if status = 405 then lit ''Method Not Allowed''
      else if status = 503 then lit ''Service Unavailable''
      else lit ''Error'')"

text \<open>The text of \<open>send_http_response\<close>.\<close>

definition http_response :: "nat \<Rightarrow> bytes \<Rightarrow> bytes \<Rightarrow> bytes" where
  "http_response status content_type body =
     lit ''HTTP/1.1 '' @ fmt_nat status @ lit '' '' @ status_text status @ crlf @
     lit ''Content-Type: '' @ content_type @ crlf @
     lit ''Content-Length: '' @ fmt_nat (length body) @ crlf @
     lit ''Connection: close'' @ crlf @
     lit ''X-Content-Type-Options: nosniff'' @ crlf @
     lit ''Cache-Control: no-store'' @ crlf @
     crlf @ body"

definition quote :: bytes where
  "quote = [0x22]"

text \<open>\<open>"key":"value"\<close> and \<open>"key": "value"\<close>.\<close>

definition json_pair :: "string \<Rightarrow> bytes \<Rightarrow> bytes" where
  "json_pair key val = quote @ lit key @ quote @ lit '':'' @ quote @ val @ quote"

definition json_line :: "string \<Rightarrow> bytes \<Rightarrow> bytes" where
  "json_line key val = lit ''  '' @ quote @ lit key @ quote @ lit '': '' @ quote @ val @ quote"

definition json_object :: "bytes list \<Rightarrow> bytes" where
  "json_object members = lit ''{'' @ join_byte 0x2C members @ lit ''}''"

definition rate_limit_body :: bytes where
  "rate_limit_body =
     json_object [json_pair ''error'' (lit ''too_many_requests''),
       json_pair ''message'' (lit ''Subnet rate limit exceeded'')]"

definition concurrency_body :: bytes where
  "concurrency_body =
     json_object [json_pair ''error'' (lit ''too_many_requests''),
       json_pair ''message'' (lit ''Subnet concurrency limit exceeded'')]"

definition invalid_nonce_body :: bytes where
  "invalid_nonce_body =
     json_object [json_pair ''error'' (lit ''invalid_nonce''),
       json_pair ''hint'' (lit
         ''nonce must be a hex-encoded string between 1 and 128 bytes (2 to 256 hex characters)'')]"

definition busy_body :: bytes where
  "busy_body =
     json_object [json_pair ''error'' (lit ''server_busy''),
       json_pair ''message'' (lit ''Hardware attestation queue is full'')]"

definition unavailable_body :: "bytes \<Rightarrow> bytes \<Rightarrow> bytes \<Rightarrow> bytes" where
  "unavailable_body err payload_hash_hex nonce_hex =
     json_object [json_pair ''error'' (lit ''snp_unavailable''),
       json_pair ''message'' (replace_byte 0x22 0x27 err),
       json_pair ''payload_sha384'' payload_hash_hex, json_pair ''nonce'' nonce_hex]"

definition report_body :: "bytes \<Rightarrow> bytes \<Rightarrow> bytes \<Rightarrow> bytes \<Rightarrow> bytes \<Rightarrow> bytes" where
  "report_body platform nonce_hex payload_hash_hex report_data_hex report_b64 =
     lit ''{'' @ [0x0A] @
     lit ''  '' @ quote @ lit ''version'' @ quote @ lit '': 1,'' @ [0x0A] @
     json_line ''platform'' platform @ lit '','' @ [0x0A] @
     json_line ''nonce'' nonce_hex @ lit '','' @ [0x0A] @
     json_line ''payload_sha384'' payload_hash_hex @ lit '','' @ [0x0A] @
     json_line ''report_data_hex'' report_data_hex @ lit '','' @ [0x0A] @
     json_line ''attestation_report'' report_b64 @ [0x0A] @
     lit ''}''"

section \<open>Windows\<close>

lemma has_window_iff: "has_window pat s \<longleftrightarrow> (\<exists>p q. s = p @ pat @ q)"
proof (induction s)
  case (Cons x xs)
  have "(\<exists>p q. x # xs = p @ pat @ q) \<longleftrightarrow> (\<exists>q. x # xs = pat @ q) \<or> (\<exists>p q. xs = p @ pat @ q)"
    by (metis append_Cons append_Nil list.exhaust list.inject)
  with Cons show ?case by (simp add: starts_with_iff)
qed simp

section \<open>Any cutting of a request\<close>

text \<open>
  The loop on packets that together are a text with an empty line: it ends with a part of the text that
  already has the empty line.
\<close>

lemma read_loop_completes:
  assumes "\<forall>c\<in>set chunks. c \<noteq> [] \<and> length c \<le> 1024"
    and "has_window crlf2 (buf @ concat chunks)" and "length (buf @ concat chunks) \<le> 8192"
    and "\<not> has_window crlf2 buf"
  shows "\<exists>seen. read_loop buf (map Data chunks @ rest) = Complete seen \<and>
    has_window crlf2 seen \<and> (\<exists>later. buf @ concat chunks = seen @ later)"
  using assms
proof (induction chunks arbitrary: buf)
  case (Cons c chunks)
  show ?case
  proof (cases "has_window crlf2 (buf @ c)")
    case True
    with Cons.prems show ?thesis by (intro exI [of _ "buf @ c"]) (simp add: read_step_def Let_def)
  next
    case False
    with Cons.prems have "read_step buf (Data c) = Reading (buf @ c)" by (simp add: read_step_def Let_def)
    with Cons.IH [of "buf @ c"] Cons.prems False show ?thesis by simp
  qed
qed simp

text \<open>A part with the empty line has the whole first line.\<close>

lemma first_line_complete:
  assumes "line @ crlf @ rest = seen @ later" and "has_window crlf2 seen" and "0x0D \<notin> set line"
  shows "\<exists>s. seen = line @ crlf @ s"
proof -
  obtain p q where pq: "seen = p @ crlf2 @ q" using assms(2) by (auto simp: has_window_iff)
  have "length line \<le> length p"
  proof (rule ccontr)
    assume "\<not> length line \<le> length p"
    then have "(line @ crlf @ rest) ! length p = line ! length p" "length p < length line"
      by (simp_all add: nth_append)
    moreover have "(line @ crlf @ rest) ! length p = 0x0D"
      unfolding assms(1) pq by (simp add: crlf2_def nth_append)
    ultimately show False using assms(3) by (metis nth_mem)
  qed
  then have "length (line @ crlf) \<le> length seen" by (simp add: pq crlf_def crlf2_def)
  then have "take (length (line @ crlf)) seen = line @ crlf"
    using arg_cong [OF assms(1), of "take (length (line @ crlf))"] by simp
  then show ?thesis by (metis append.assoc append_take_drop_id)
qed

section \<open>Parameters\<close>

definition param_text :: "bytes \<times> bytes \<Rightarrow> bytes" where
  "param_text p = fst p @ 0x3D # snd p"

definition query_text :: "(bytes \<times> bytes) list \<Rightarrow> bytes" where
  "query_text ps = join_byte 0x26 (map param_text ps)"

lemma find_param_map_of:
  "\<forall>p\<in>set ps. 0x3D \<notin> set (fst p) \<Longrightarrow> find_param key (map param_text ps) = map_of ps key"
  by (induction ps) (auto simp: param_text_def)

lemma extract_query_param_map_of:
  assumes "ps \<noteq> []" and "\<forall>p\<in>set ps. 0x3D \<notin> set (fst p) \<and> 0x26 \<notin> set (fst p) \<and> 0x26 \<notin> set (snd p)"
  shows "extract_query_param (query_text ps) key = map_of ps key"
proof -
  have "split_byte 0x26 (query_text ps) = map param_text ps"
    unfolding query_text_def using assms by (intro split_join) (auto simp: param_text_def)
  then show ?thesis using assms(2) by (simp add: extract_query_param_def find_param_map_of)
qed

section \<open>The request line\<close>

definition request_line :: "(bytes \<times> bytes) list \<Rightarrow> bytes" where
  "request_line ps = lit ''GET /v1/attestation?'' @ query_text ps @ lit '' HTTP/1.1''"

lemma join_plain: "\<forall>w\<in>set ws. \<forall>x\<in>set w. plain x \<Longrightarrow> plain c \<Longrightarrow> \<forall>x\<in>set (join_byte c ws). plain x"
  by (induction c ws rule: join_byte.induct) auto

lemma request_line_words:
  assumes "\<forall>x\<in>set (query_text ps). plain x"
  shows "split_whitespace (request_line ps) =
    [lit ''GET'', lit ''/v1/attestation?'' @ query_text ps, lit ''HTTP/1.1'']"
proof -
  have plain: "\<forall>x\<in>set (lit ''GET''). plain x" "\<forall>x\<in>set (lit ''/v1/attestation?'' @ query_text ps). plain x"
    "\<forall>x\<in>set (lit ''HTTP/1.1''). plain x"
    using assms by (auto simp: plain_def)
  have "request_line ps = lit ''GET'' @ 0x20 # (lit ''/v1/attestation?'' @ query_text ps) @ 0x20 # lit ''HTTP/1.1''"
    by (simp add: request_line_def)
  then show ?thesis
    using split_whitespace_word [OF _ plain(1)] split_whitespace_word [OF _ plain(2)]
      split_whitespace_end [OF _ plain(3)] by simp
qed

lemma parse_request_line:
  assumes "ps \<noteq> []" and "\<forall>p\<in>set ps. 0x3D \<notin> set (fst p) \<and> 0x26 \<notin> set (fst p) \<and> 0x26 \<notin> set (snd p)"
    and "\<forall>p\<in>set ps. \<forall>x\<in>set (fst p) \<union> set (snd p). plain x"
  shows "parse_request (request_line ps @ crlf @ rest) =
    (case map_of ps (lit ''nonce'') of
       Some nonce \<Rightarrow> if valid_nonce nonce then Attest nonce else Invalid_Nonce
     | None \<Rightarrow> Invalid_Nonce)"
proof -
  have q: "\<forall>x\<in>set (query_text ps). plain x"
    unfolding query_text_def using assms(3) by (intro join_plain) (auto simp: param_text_def plain_def)
  have line: "\<forall>x\<in>set (request_line ps). x < 0x80 \<and> x \<noteq> 0x0A"
    using q by (auto simp: request_line_def plain_def word_less_nat_alt)
  have decoded: "from_utf8_lossy (request_line ps @ crlf @ rest) = request_line ps @ 0x0D # 0x0A # from_utf8_lossy rest"
    using line by (simp add: from_utf8_lossy_append crlf_def from_utf8_lossy_ascii)
  have first: "str_lines (request_line ps @ 0x0D # 0x0A # from_utf8_lossy rest) =
      request_line ps # str_lines (from_utf8_lossy rest)"
    using line by (intro str_lines_crlf) auto
  have path: "split_once 0x3F (lit ''/v1/attestation?'' @ query_text ps) = Some (lit ''/v1/attestation'', query_text ps)"
    by simp
  have "\<not> valid_nonce []" by (simp add: valid_nonce_def)
  then show ?thesis
    unfolding parse_request_def Let_def decoded first list.case request_line_words [OF q]
    using path extract_query_param_map_of [OF assms(1,2)]
    by (auto simp: starts_with_def crlf_def split: option.splits)
qed

section \<open>A client's view of an answer\<close>

text \<open>The text before and after the first empty line.\<close>

fun cut_head :: "bytes \<Rightarrow> (bytes \<times> bytes) option" where
  "cut_head [] = None"
| "cut_head (x # xs) =
     (if starts_with (x # xs) crlf2 then Some ([], drop 4 (x # xs))
      else map_option (\<lambda>(h, b). (x # h, b)) (cut_head xs))"

definition content_length :: "bytes list \<Rightarrow> nat option" where
  "content_length lines =
     map_option (\<lambda>l. digits_val (drop 16 l)) (find (\<lambda>l. starts_with l (lit ''Content-Length: '')) lines)"

text \<open>
  The status is the second word of the first line; the body has the announced length, and what comes
  after it is not part of the answer.
\<close>

definition read_response :: "bytes \<Rightarrow> (nat \<times> bytes) option" where
  "read_response s =
     (case cut_head s of
        None \<Rightarrow> None
      | Some (head, rest) \<Rightarrow>
          (case content_length (str_lines head) of
             None \<Rightarrow> None
           | Some n \<Rightarrow>
               if n \<le> length rest
               then Some (digits_val (split_whitespace (hd (str_lines head)) ! 1), take n rest) else None))"

fun crlf_lines :: "bytes list \<Rightarrow> bytes" where
  "crlf_lines [] = []"
| "crlf_lines [l] = l"
| "crlf_lines (l # ls) = l @ crlf @ crlf_lines ls"

lemma crlf_lines_Cons: "ls \<noteq> [] \<Longrightarrow> crlf_lines (l # ls) = l @ crlf @ crlf_lines ls"
  by (cases ls) auto

lemma cut_head_text: "0x0D \<notin> set w \<Longrightarrow> cut_head (w @ s) = map_option (\<lambda>(h, b). (w @ h, b)) (cut_head s)"
proof (induction w)
  case Nil
  show ?case by (cases "cut_head s") auto
next
  case (Cons x w)
  then have "\<not> starts_with (x # w @ s) crlf2" by (auto simp: starts_with_def crlf2_def)
  with Cons show ?case by (cases "cut_head s") auto
qed

lemma cut_head_line:
  assumes "0x0D \<notin> set w" and "s \<noteq> []" and "hd s \<noteq> 0x0D"
  shows "cut_head (w @ crlf @ s) = map_option (\<lambda>(h, b). (w @ crlf @ h, b)) (cut_head s)"
proof -
  obtain x xs where s: "s = x # xs" using assms(2) by (cases s) auto
  have "cut_head (crlf @ s) = map_option (\<lambda>(h, b). (crlf @ h, b)) (cut_head s)"
    using assms(3) by (cases "cut_head s") (auto simp: s crlf_def starts_with_def crlf2_def)
  then show ?thesis
    by (cases "cut_head s") (auto simp: cut_head_text [OF assms(1)])
qed

lemma cut_head_lines:
  assumes "ls \<noteq> []" and "\<forall>l\<in>set ls. l \<noteq> [] \<and> 0x0D \<notin> set l"
  shows "cut_head (crlf_lines ls @ crlf2 @ body) = Some (crlf_lines ls, body)"
  using assms
proof (induction ls)
  case (Cons l ls)
  show ?case
  proof (cases "ls = []")
    case True
    with Cons.prems show ?thesis by (simp add: cut_head_text) (simp add: crlf2_def starts_with_def)
  next
    case False
    then obtain m ms where ls: "ls = m # ms" by (cases ls) auto
    then obtain x xs where m: "m = x # xs" "x \<noteq> 0x0D" using Cons.prems by (cases m) auto
    have "crlf_lines ls @ crlf2 @ body \<noteq> []" "hd (crlf_lines ls @ crlf2 @ body) \<noteq> 0x0D"
      using m by (cases ms; simp add: ls crlf2_def)+
    with Cons False show ?thesis
      by (simp add: crlf_lines_Cons cut_head_line del: append_assoc) (simp add: cut_head_line)
  qed
qed simp

lemma str_lines_crlf_lines:
  "ls \<noteq> [] \<Longrightarrow> \<forall>l\<in>set ls. l \<noteq> [] \<and> 0x0A \<notin> set l \<Longrightarrow> str_lines (crlf_lines ls) = ls"
proof (induction ls)
  case (Cons l ls)
  have one: "str_lines w = [w]" if "w \<noteq> []" "0x0A \<notin> set w" for w
  proof -
    have "str_lines_acc acc w = (if acc @ w = [] then [] else [rev acc @ w])" for acc
      using that(2) by (induction w arbitrary: acc) auto
    with that show ?thesis by (simp add: str_lines_def)
  qed
  show ?case
  proof (cases "ls = []")
    case False
    with Cons show ?thesis by (simp add: crlf_lines_Cons crlf_def str_lines_crlf)
  qed (use Cons.prems one in simp)
qed simp

text \<open>The lines of an answer.\<close>

definition response_lines :: "nat \<Rightarrow> bytes \<Rightarrow> nat \<Rightarrow> bytes list" where
  "response_lines status content_type n =
     [lit ''HTTP/1.1 '' @ fmt_nat status @ lit '' '' @ status_text status,
      lit ''Content-Type: '' @ content_type, lit ''Content-Length: '' @ fmt_nat n,
      lit ''Connection: close'', lit ''X-Content-Type-Options: nosniff'', lit ''Cache-Control: no-store'']"

lemma http_response_lines:
  "http_response status content_type body =
     crlf_lines (response_lines status content_type (length body)) @ crlf2 @ body"
  by (simp add: http_response_def response_lines_def crlf_def crlf2_def)

lemma status_text_bytes: "\<forall>x\<in>set (status_text status). 0x20 \<le> x"
  by (simp add: status_text_def)

lemma fmt_nat_bytes: "\<forall>x\<in>set (fmt_nat n). 0x20 \<le> x"
  using fmt_nat_digits [of n] by (auto simp: list_all_iff is_digit_def intro: order_trans [rotated])

lemma response_lines_ok:
  assumes "\<forall>x\<in>set content_type. 0x20 \<le> x"
  shows "\<forall>l\<in>set (response_lines status content_type n). l \<noteq> [] \<and> 0x0D \<notin> set l \<and> 0x0A \<notin> set l"
  using assms status_text_bytes [of status] fmt_nat_bytes
  by (fastforce simp: response_lines_def)

lemma response_status:
  "split_whitespace (hd (response_lines status content_type n)) ! 1 = fmt_nat status"
proof -
  have d: "\<forall>x\<in>set (fmt_nat status). plain x"
    using fmt_nat_digits [of status] by (auto simp: list_all_iff plain_digit)
  have h: "\<forall>x\<in>set (lit ''HTTP/1.1''). plain x" by (simp add: plain_def)
  have "hd (response_lines status content_type n) =
      lit ''HTTP/1.1'' @ 0x20 # fmt_nat status @ 0x20 # status_text status"
    by (simp add: response_lines_def)
  then show ?thesis
    using split_whitespace_word [OF _ h] split_whitespace_word [OF fmt_nat_not_Nil d] by simp
qed

lemma response_content_length:
  "content_length (response_lines status content_type n) = Some n"
  by (simp add: content_length_def response_lines_def starts_with_def digits_val_fmt_nat)

lemma read_response_http:
  assumes "\<forall>x\<in>set content_type. 0x20 \<le> x"
  shows "read_response (http_response status content_type body @ extra) = Some (status, body)"
proof -
  let ?ls = "response_lines status content_type (length body)"
  have ok: "?ls \<noteq> []" "\<forall>l\<in>set ?ls. l \<noteq> [] \<and> 0x0D \<notin> set l" "\<forall>l\<in>set ?ls. l \<noteq> [] \<and> 0x0A \<notin> set l"
    using response_lines_ok [OF assms, of status "length body"] by (auto simp: response_lines_def)
  have "cut_head (http_response status content_type body @ extra) = Some (crlf_lines ?ls, body @ extra)"
    using cut_head_lines [OF ok(1,2)] by (simp add: http_response_lines)
  then show ?thesis
    by (simp add: read_response_def str_lines_crlf_lines [OF ok(1,3)] response_content_length
        response_status [unfolded One_nat_def] digits_val_fmt_nat)
qed

section \<open>Properties\<close>

text \<open>
  C31. A request is understood however the network cuts it: when the packets, of at most 1024 bytes each,
  together are a request line with parameters, the rest of a header and its empty line, within 8192
  bytes, the loop stops with enough of it to decide, and the decision is that of the first parameter
  called \<open>nonce\<close>: an attestation for it when it is 2 to 256 hexadecimal digits, an even number of them,
  and an error answer otherwise.
\<close>

theorem request_understood:
  assumes "concat chunks = request_line ps @ crlf @ rest" and "\<forall>c\<in>set chunks. c \<noteq> [] \<and> length c \<le> 1024"
    and "has_window crlf2 (concat chunks)" and "length (concat chunks) \<le> 8192"
    and "ps \<noteq> []" and "\<forall>p\<in>set ps. 0x3D \<notin> set (fst p) \<and> 0x26 \<notin> set (fst p) \<and> 0x26 \<notin> set (snd p)"
    and "\<forall>p\<in>set ps. \<forall>x\<in>set (fst p) \<union> set (snd p). plain x"
  shows "\<exists>seen. read_loop [] (map Data chunks @ later) = Complete seen \<and>
    parse_request seen =
      (case map_of ps (lit ''nonce'') of
         Some nonce \<Rightarrow>
           if 2 \<le> length nonce \<and> length nonce \<le> 256 \<and> even (length nonce) \<and> list_all is_hexdigit nonce
           then Attest nonce else Invalid_Nonce
       | None \<Rightarrow> Invalid_Nonce)"
proof -
  obtain seen after where seen: "read_loop [] (map Data chunks @ later) = Complete seen"
    "has_window crlf2 seen" "concat chunks = seen @ after"
    using read_loop_completes [OF assms(2), of "[]" later] assms(3,4) by (auto simp: crlf2_def)
  have "\<forall>x\<in>set (query_text ps). plain x"
    unfolding query_text_def using assms(7) by (intro join_plain) (auto simp: param_text_def plain_def)
  then have "0x0D \<notin> set (request_line ps)" by (auto simp: request_line_def plain_def)
  then obtain more where more: "seen = request_line ps @ crlf @ more"
    using first_line_complete seen assms(1) by metis
  have valid: "valid_nonce n \<longleftrightarrow> 2 \<le> length n \<and> length n \<le> 256 \<and> even (length n) \<and> list_all is_hexdigit n" for n
    by (auto simp: valid_nonce_def even_iff_mod_2_eq_zero)
  show ?thesis
    using seen(1) parse_request_line [OF assms(5-7), of more] unfolding valid more by blast
qed

theorem request_understood_witness:
  "\<exists>seen. read_loop [] (map Data [request_line [(lit ''nonce'', lit ''ab'')], crlf, crlf] @ []) = Complete seen \<and>
     parse_request seen = Attest (lit ''ab'')"
proof -
  let ?ps = "[(lit ''nonce'', lit ''ab'')]"
  have "has_window crlf2 (concat [request_line ?ps, crlf, crlf])"
    by (auto simp: has_window_iff crlf_def crlf2_def intro: exI [of _ "request_line ?ps"])
  from request_understood [of "[request_line ?ps, crlf, crlf]" ?ps crlf "[]", OF _ _ this] show ?thesis
    by (simp add: request_line_def query_text_def param_text_def crlf_def plain_def is_hexdigit_def is_digit_def)
qed

text \<open>
  C32. An answer can be read back: a client that takes the header up to the first empty line, the status
  from its first line and as many body bytes as \<open>Content-Length\<close> says gets exactly the status and
  the body that were sent, for every body, whatever bytes it contains and whatever follows.
\<close>

theorem response_roundtrip:
  assumes "\<forall>x\<in>set content_type. 0x20 \<le> x"
  shows "read_response (http_response status content_type body @ extra) = Some (status, body)"
  using assms by (rule read_response_http)

theorem response_roundtrip_witness:
  "read_response (http_response 429 (lit ''application/json'') rate_limit_body @ []) = Some (429, rate_limit_body)"
  by (rule response_roundtrip) simp

end
