(* ===== verification/Attestation.thy ===== *)
theory Attestation
  imports Attest_Http Limiter Config
begin

text \<open>
  The attestation server of \<open>src/attestation.rs\<close>: the accept loop of \<open>run_attestation_server\<close>, the
  connection handler \<open>handle_attestation_connection\<close> and \<open>get_snp_attestation_report\<close>. Handlers run
  concurrently and share the subnet limiter and the semaphore of the hardware queue, both of which
  are changed atomically; so the server is a step relation whose steps are the pieces of a handler
  between two points where others can run, in any order (\<open>handler_step\<close>), or an accept. Each
  connection has a number, which names it in the events of its reads and its answer.

  The properties of the server are proved in \<open>Attest_Safety\<close> and \<open>Attest_Liveness\<close>. The semaphore of the
  hardware is a second provider of the interface \<open>admission\<close> of \<open>Limiter\<close>.
\<close>

section \<open>The accept loop\<close>

datatype error_kind =
    Connection_Aborted | Connection_Reset | Broken_Pipe | Interrupted | Other_Kind

text \<open>The outcome of \<open>accept\<close>: a connection from an address, or the kind and code of an error.\<close>

datatype accept_outcome = Incoming ip_addr | Accept_Error error_kind "u32 option"

definition EMFILE :: u32 where "EMFILE = 24"
definition ENFILE :: u32 where "ENFILE = 23"

text \<open>One iteration: from the error count to the next, or the end.\<close>

definition accept_step :: "u32 \<Rightarrow> accept_outcome \<Rightarrow> ('e, u32) io" where
  "accept_step consecutive_errors outcome =
     (case outcome of
        Incoming ip \<Rightarrow> return 0
      | Accept_Error kind code \<Rightarrow>
          if kind = Connection_Aborted \<or> kind = Connection_Reset \<or> kind = Broken_Pipe \<or> kind = Interrupted
          then return consecutive_errors
          else if code = Some EMFILE \<or> code = Some ENFILE
          then bind (emit (Sleep_Ms 100)) (\<lambda>_. return consecutive_errors)
          else let errors = consecutive_errors + 1 in
            bind (emit (Sleep_Ms 100)) (\<lambda>_.
            if errors \<ge> MAX_CONSECUTIVE_ERRORS then panic_shutdown Attestation_Accept_Failed
            else return errors))"

fun accept_loop :: "u32 \<Rightarrow> accept_outcome list \<Rightarrow> ('e, u32) io" where
  "accept_loop errors [] = return errors"
| "accept_loop errors (outcome # outcomes) =
     bind (accept_step errors outcome) (\<lambda>errors'. accept_loop errors' outcomes)"

section \<open>The hardware\<close>

definition SNP_GET_REPORT :: u64 where
  "SNP_GET_REPORT = 0xC0205300"

definition dev_path :: bytes where
  "dev_path = lit ''/dev/sev-guest''"

text \<open>\<open>SnpReportReq\<close> as the kernel sees it: the user data, \<open>vmpl\<close> 0 and 28 reserved bytes.\<close>

definition report_request :: "bytes \<Rightarrow> bytes" where
  "report_request report_data = report_data @ to_le 4 0 @ replicate 28 0"

text \<open>\<open>SnpReportResp\<close> after a successful call.\<close>

definition response_buffer :: "(nat \<Rightarrow> u8) \<Rightarrow> bytes" where
  "response_buffer out = map out [0..<4000]"

text \<open>
  The result is the first 1184 of the 4000 bytes of \<open>SnpReportResp\<close>, or an error text; the text of a
  system error and the firmware code come from the environment.
\<close>

definition get_snp_attestation_report :: "bytes \<Rightarrow> (bytes, bytes) io" where
  "get_snp_attestation_report report_data =
     bind (call (Path_Exists dev_path) (\<lambda>E. fs_ok (os E))) (\<lambda>exists.
     if \<not> exists then fail (lit ''SEV-SNP device not available (/dev/sev-guest not found)'') else
     bind (call (Open_Read dev_path)
       (\<lambda>E t. if fs_ok (os E) t then None else Some (error_text (os E) t))) (\<lambda>failed.
     case failed of
       Some e \<Rightarrow> fail (lit ''Failed to open '' @ dev_path @ lit '': '' @ e)
     | None \<Rightarrow>
         bind (call (Ioctl SNP_GET_REPORT (report_request report_data))
           (\<lambda>E t. if ioctl_ok (os E) t
              then Inr (response_buffer (ioctl_out (os E) t (report_request report_data)))
              else Inl (error_text (os E) t, exitinfo2 (os E) t))) (\<lambda>r.
         case r of
           Inl (errno, fw) \<Rightarrow> fail (lit ''SNP_GET_REPORT ioctl failed: '' @ errno @ lit '' (fw_err: '' @
             fmt_nat (unat (fw AND 0xFFFFFFFF)) @ lit '')'')
         | Inr resp \<Rightarrow> return (take 1184 resp))))"

section \<open>The handler\<close>

text \<open>The content type of every answer.\<close>

definition content_json :: bytes where
  "content_json = lit ''application/json''"

text \<open>The data a report is asked for: SHA-512 of the payload hash and the nonce; both are decoded.\<close>

definition report_data :: "crypto_lib \<Rightarrow> bytes \<Rightarrow> bytes \<Rightarrow> bytes option" where
  "report_data L payload_hash_hex nonce_hex =
     (case base16_mixed_decode L nonce_hex of
        None \<Rightarrow> None
      | Some nonce_bytes \<Rightarrow>
          (case base16_mixed_decode L payload_hash_hex of
             None \<Rightarrow> None
           | Some payload_hash_bytes \<Rightarrow> Some (array_bytes (sha512 L (payload_hash_bytes @ nonce_bytes)))))"

text \<open>The status and the body of the answer to a valid request.\<close>

definition attest :: "bytes \<Rightarrow> bytes \<Rightarrow> bytes \<Rightarrow> ('e, nat \<times> bytes) io" where
  "attest payload_hash_hex nonce_hex rdata =
     on_result (get_snp_attestation_report rdata)
       (\<lambda>err. return (503, unavailable_body err payload_hash_hex nonce_hex))
       (\<lambda>report. with_lib (\<lambda>L. return (200,
          report_body (lit ''amd-sev-snp'') nonce_hex payload_hash_hex (base16_lower_encode L rdata)
            (base64url_encode L report))))"

text \<open>
  Where a handler is: it has its connection; it reads, with its subnet permit and the buffer; it has
  a valid request with its nonce and report data; it holds a hardware permit too; it writes an answer,
  holding what it holds.
\<close>

datatype phase =
    Accepted ip_addr
  | Reading_Request subnet bytes
  | Requesting subnet bytes bytes
  | Reporting subnet bytes bytes
  | Replying "subnet option" bool nat bytes

definition begin_handler :: "(refusal, subnet) result \<Rightarrow> phase" where
  "begin_handler r =
     (case r of
        Ok permit \<Rightarrow> Reading_Request permit []
      | Err Rate_Limit_Exceeded \<Rightarrow> Replying None False 429 rate_limit_body
      | _ \<Rightarrow> Replying None False 429 concurrency_body)"

text \<open>What follows a read; \<open>None\<close> is a return without an answer.\<close>

definition after_read :: "crypto_lib \<Rightarrow> bytes \<Rightarrow> subnet \<Rightarrow> read_state \<Rightarrow> phase option" where
  "after_read L payload_hash_hex permit state =
     (case state of
        Reading buf \<Rightarrow> Some (Reading_Request permit buf)
      | Complete buf \<Rightarrow>
          (case parse_request buf of
             Ignored \<Rightarrow> None
           | Invalid_Nonce \<Rightarrow> Some (Replying (Some permit) False 400 invalid_nonce_body)
           | Attest nonce_hex \<Rightarrow>
               map_option (Requesting permit nonce_hex) (report_data L payload_hash_hex nonce_hex))
      | _ \<Rightarrow> None)"

section \<open>The server\<close>

text \<open>
  A connection is named by how many were accepted before it; the handlers are the phases of the open
  connections.
\<close>

record server_state =
  errors :: u32
  limits :: limiter
  hardware :: nat
  connections :: nat
  handlers :: "(nat \<times> phase) multiset"
  log :: trace

definition HARDWARE_QUEUE :: nat where
  "HARDWARE_QUEUE = 8"

definition new_server :: "trace \<Rightarrow> server_state" where
  "new_server t =
     \<lparr>errors = 0, limits = new_limiter 10 3000000000 2, hardware = 0, connections = 0, handlers = {#}, log = t\<rparr>"

text \<open>The semaphore of the hardware: \<open>try_acquire\<close> and the drop of a permit, on the number of permits taken.\<close>

definition try_acquire :: "nat \<Rightarrow> (unit, unit) result \<times> nat" where
  "try_acquire taken = (if taken < HARDWARE_QUEUE then (Ok (), taken + 1) else (Err (), taken))"

definition add_permit :: "nat \<Rightarrow> nat" where
  "add_permit taken = taken - 1"

text \<open>The permits are dropped when a handler returns.\<close>

definition drop_permits :: "subnet option \<Rightarrow> bool \<Rightarrow> server_state \<Rightarrow> server_state" where
  "drop_permits permit hw s =
     s\<lparr>limits := (case permit of Some p \<Rightarrow> release p (limits s) | None \<Rightarrow> limits s),
       hardware := (if hw then add_permit (hardware s) else hardware s)\<rparr>"

definition replace_handler :: "nat \<Rightarrow> phase \<Rightarrow> phase \<Rightarrow> server_state \<Rightarrow> server_state" where
  "replace_handler conn old new s = s\<lparr>handlers := add_mset (conn, new) (handlers s - {#(conn, old)#})\<rparr>"

definition remove_handler :: "nat \<Rightarrow> phase \<Rightarrow> server_state \<Rightarrow> server_state" where
  "remove_handler conn old s = s\<lparr>handlers := handlers s - {#(conn, old)#}\<rparr>"

definition record_event :: "event \<Rightarrow> server_state \<Rightarrow> server_state" where
  "record_event ev s = s\<lparr>log := ev # log s\<rparr>"

text \<open>The task spawned for an accepted connection.\<close>

definition add_handler :: "accept_outcome \<Rightarrow> server_state \<Rightarrow> server_state" where
  "add_handler outcome s =
     (case outcome of
        Incoming ip \<Rightarrow> s\<lparr>connections := Suc (connections s), handlers := add_mset (connections s, Accepted ip) (handlers s)\<rparr>
      | Accept_Error kind code \<Rightarrow> s)"

interpretation hardware_admission: admission
  "\<lambda>i. try_acquire" "\<lambda>k. add_permit" "\<lambda>i. ()" "\<lambda>taken k. taken" "\<lambda>taken. HARDWARE_QUEUE"
  by unfold_locales (auto simp: try_acquire_def add_permit_def split: if_splits)

text \<open>The steps of the handler of a connection, with the instant of the latest acquisition.\<close>

inductive handler_step :: "env \<Rightarrow> bytes \<Rightarrow> nat \<times> server_state \<Rightarrow> nat \<times> server_state \<Rightarrow> bool"
  for E hash where
  admit: "(conn, Accepted ip) \<in># handlers s \<Longrightarrow> clock \<le> now \<Longrightarrow> acquire now ip (limits s) = (r, L) \<Longrightarrow>
    handler_step E hash (clock, s)
      (now, replace_handler conn (Accepted ip) (begin_handler r) (s\<lparr>limits := L\<rparr>))"
| read: "(conn, Reading_Request p buf) \<in># handlers s \<Longrightarrow>
    after_read (lib E) hash p (read_step buf r) = Some ph \<Longrightarrow>
    handler_step E hash (clock, s)
      (clock, record_event (Http_Read conn r) (replace_handler conn (Reading_Request p buf) ph s))"
| quit: "(conn, Reading_Request p buf) \<in># handlers s \<Longrightarrow>
    after_read (lib E) hash p (read_step buf r) = None \<Longrightarrow>
    handler_step E hash (clock, s)
      (clock, record_event (Http_Read conn r)
        (drop_permits (Some p) False (remove_handler conn (Reading_Request p buf) s)))"
| queue: "(conn, Requesting p n d) \<in># handlers s \<Longrightarrow> try_acquire (hardware s) = (Ok u, taken) \<Longrightarrow>
    handler_step E hash (clock, s)
      (clock, (replace_handler conn (Requesting p n d) (Reporting p n d) s)\<lparr>hardware := taken\<rparr>)"
| busy: "(conn, Requesting p n d) \<in># handlers s \<Longrightarrow> try_acquire (hardware s) = (Err e, taken) \<Longrightarrow>
    handler_step E hash (clock, s)
      (clock, (replace_handler conn (Requesting p n d) (Replying (Some p) False 503 busy_body) s)
        \<lparr>hardware := taken\<rparr>)"
| report: "(conn, Reporting p n d) \<in># handlers s \<Longrightarrow>
    attest hash n d E (log s) = (Ok (status, body) :: (unit, nat \<times> bytes) result, t') \<Longrightarrow>
    handler_step E hash (clock, s)
      (clock, (replace_handler conn (Reporting p n d) (Replying (Some p) True status body) s)\<lparr>log := t'\<rparr>)"
| lost: "(conn, Replying permit hw status body) \<in># handlers s \<Longrightarrow>
    handler_step E hash (clock, s)
      (clock, drop_permits permit hw (remove_handler conn (Replying permit hw status body) s))"
| reply: "(conn, Replying permit hw status body) \<in># handlers s \<Longrightarrow>
    handler_step E hash (clock, s)
      (clock, record_event (Http_Reply conn (http_response status content_json body))
        (drop_permits permit hw (remove_handler conn (Replying permit hw status body) s)))"

text \<open>The server: an iteration of its accept loop or a step of a handler.\<close>

inductive server_step :: "env \<Rightarrow> bytes \<Rightarrow> nat \<times> server_state \<Rightarrow> nat \<times> server_state \<Rightarrow> bool"
  for E hash where
  accept: "accept_step (errors s) outcome E (log s) = (Ok n :: (unit, u32) result, t') \<Longrightarrow>
    server_step E hash (clock, s) (clock, add_handler outcome (s\<lparr>errors := n, log := t'\<rparr>))"
| handle: "handler_step E hash c c' \<Longrightarrow> server_step E hash c c'"

inductive serving :: "env \<Rightarrow> bytes \<Rightarrow> trace \<Rightarrow> nat \<times> server_state \<Rightarrow> bool" for E hash t where
  start: "serving E hash t (0, new_server t)"
| step: "serving E hash t c \<Longrightarrow> server_step E hash c c' \<Longrightarrow> serving E hash t c'"

lemma record_event_simps [simp]:
  "errors (record_event ev s) = errors s" "limits (record_event ev s) = limits s"
  "hardware (record_event ev s) = hardware s" "connections (record_event ev s) = connections s"
  "handlers (record_event ev s) = handlers s" "log (record_event ev s) = ev # log s"
  by (simp_all add: record_event_def)

end
