(* ===== verification/Attest_Safety.thy ===== *)
theory Attest_Safety
  imports Attestation
begin

text \<open>
  What holds of the attestation server of \<open>src/attestation.rs\<close> in every interleaving of its handlers:
  the accept loop is a function of the outcomes it sees, the permits of both limiters are exactly
  accounted for, and the hardware is asked, and a client is answered, for reports that bind the
  payload hash to the nonce of the request read on its connection.
\<close>

section \<open>The accept loop against its specification\<close>

text \<open>An error that counts, and the number of them since the last connection.\<close>

definition counted :: "accept_outcome \<Rightarrow> bool" where
  "counted outcome \<longleftrightarrow>
     (case outcome of
        Incoming ip \<Rightarrow> False
      | Accept_Error kind code \<Rightarrow> kind = Other_Kind \<and> code \<notin> {Some EMFILE, Some ENFILE})"

definition is_incoming :: "accept_outcome \<Rightarrow> bool" where
  "is_incoming outcome \<longleftrightarrow> (case outcome of Incoming ip \<Rightarrow> True | _ \<Rightarrow> False)"

definition streak :: "accept_outcome list \<Rightarrow> nat" where
  "streak outcomes = length (filter counted (takeWhile (\<lambda>x. \<not> is_incoming x) (rev outcomes)))"

lemma streak_snoc:
  "streak (xs @ [x]) = (if is_incoming x then 0 else if counted x then Suc (streak xs) else streak xs)"
  by (cases "is_incoming x") (simp_all add: streak_def)

lemma streak_Nil [simp]: "streak [] = 0"
  by (simp add: streak_def)

lemma accept_loop_append:
  "accept_loop e (xs @ ys) = bind (accept_loop e xs) (\<lambda>e'. accept_loop e' ys)"
proof (induction xs arbitrary: e)
  case Nil
  show ?case by (intro ext) (simp add: bind_eq)
next
  case (Cons x xs)
  show ?case by (simp only: append_Cons accept_loop.simps Cons.IH bind_assoc)
qed

lemma accept_loop_single: "accept_loop e [x] = accept_step e x"
  by (intro ext) (simp add: bind_eq split: prod.splits result.splits)

lemma accept_step_counts:
  assumes "unat e < 10"
  shows "let k = (if is_incoming x then 0 else if counted x then Suc (unat e) else unat e)
    in if k < 10 then \<exists>t'. accept_step e x E t = (Ok (of_nat k) :: ('e, u32) result, t')
       else \<exists>t'. accept_step e x E t = (Panic :: ('e, u32) result, t') \<and> halted E t'"
proof (cases "counted x")
  case True
  then obtain code where x: "x = Accept_Error Other_Kind code" "code \<noteq> Some EMFILE" "code \<noteq> Some ENFILE"
    by (auto simp: counted_def split: accept_outcome.splits)
  have e: "unat (e + 1) = Suc (unat e)"
    using assms by (simp add: unat_word_ariths)
  then have "MAX_CONSECUTIVE_ERRORS \<le> e + 1 \<longleftrightarrow> \<not> Suc (unat e) < 10"
    by (auto simp: MAX_CONSECUTIVE_ERRORS_def word_le_nat_alt)
  moreover have "of_nat (Suc (unat e)) = e + 1" by simp
  ultimately show ?thesis
    using True x assms
    by (simp add: accept_step_def is_incoming_def Let_def panic_shutdown_def)
next
  case False
  then show ?thesis
    using assms
    by (cases x)
      (auto simp: accept_step_def counted_def is_incoming_def Let_def, (metis error_kind.exhaust)+)
qed

text \<open>The loop follows the streak: it goes on as long as every prefix has fewer than ten.\<close>

definition steady :: "accept_outcome list \<Rightarrow> bool" where
  "steady outcomes \<longleftrightarrow> list_all (\<lambda>k. streak (take k outcomes) < 10) [0..<Suc (length outcomes)]"

lemma steady_Nil: "steady []"
  by (simp add: steady_def)

lemma steady_snoc: "steady (xs @ [x]) \<longleftrightarrow> steady xs \<and> streak (xs @ [x]) < 10"
  by (simp add: steady_def list_all_iff) (auto simp: less_Suc_eq)

lemma steady_streak: "steady xs \<Longrightarrow> streak xs < 10"
  by (simp add: steady_def list_all_iff)

lemma accept_loop_streak:
  "if steady xs then \<exists>t'. accept_loop 0 xs E t = (Ok (of_nat (streak xs)) :: ('e, u32) result, t')
   else \<exists>t'. accept_loop 0 xs E t = (Panic :: ('e, u32) result, t') \<and> halted E t'"
proof (induction xs rule: rev_induct)
  case Nil
  show ?case by (simp add: steady_Nil)
next
  case (snoc x xs)
  show ?case
  proof (cases "steady xs")
    case True
    then obtain t' where t': "accept_loop 0 xs E t = (Ok (of_nat (streak xs)) :: ('e, u32) result, t')"
      using snoc by auto
    have few: "streak xs < 10" using True by (rule steady_streak)
    then have u: "unat (of_nat (streak xs) :: u32) = streak xs" by (simp add: unat_of_nat)
    have run: "(accept_loop 0 (xs @ [x]) :: ('e, u32) io) E t = accept_step (of_nat (streak xs)) x E t'"
      unfolding accept_loop_append accept_loop_single using t' by simp
    show ?thesis
      using accept_step_counts [where 'e = 'e, of "of_nat (streak xs)" x E t'] True few
      unfolding run u Let_def steady_snoc streak_snoc by (simp split: if_splits)
  next
    case False
    then obtain t' where "accept_loop 0 xs E t = (Panic :: ('e, u32) result, t')" "halted E t'"
      using snoc by auto
    then show ?thesis
      using False unfolding accept_loop_append steady_snoc by (simp add: bind_eq)
  qed
qed

section \<open>Permits\<close>

text \<open>The subnet permit a handler holds, and whether it holds a hardware permit.\<close>

fun held :: "phase \<Rightarrow> subnet multiset" where
  "held (Accepted ip) = {#}"
| "held (Reading_Request p buf) = {#p#}"
| "held (Requesting p n d) = {#p#}"
| "held (Reporting p n d) = {#p#}"
| "held (Replying permit hw status body) = (case permit of Some p \<Rightarrow> {#p#} | None \<Rightarrow> {#})"

fun on_hardware :: "phase \<Rightarrow> bool" where
  "on_hardware (Reporting p n d) = True"
| "on_hardware (Replying permit hw status body) = hw"
| "on_hardware _ = False"

definition permits :: "server_state \<Rightarrow> subnet multiset" where
  "permits s = sum_mset (image_mset (\<lambda>(conn, ph). held ph) (handlers s))"

definition hardware_permits :: "server_state \<Rightarrow> nat" where
  "hardware_permits s = size (filter_mset (\<lambda>(conn, ph). on_hardware ph) (handlers s))"

text \<open>The accounting: the limiter has a run that ends with just these permits in circulation.\<close>

definition balanced :: "nat \<Rightarrow> server_state \<Rightarrow> bool" where
  "balanced clock s \<longleftrightarrow>
     (\<exists>h. limiter_run (new_limiter 10 3000000000 2) clock (limits s) (permits s) h) \<and>
     hardware_admission.accounted (hardware s) (replicate_mset (hardware_permits s) ())"

lemma hardware_accounted_iff:
  "hardware_admission.accounted taken (replicate_mset n ()) \<longleftrightarrow> taken = n \<and> n \<le> HARDWARE_QUEUE"
  by (auto simp: hardware_admission.accounted_def)

lemma begin_handler_held:
  "held (begin_handler r) = (case r of Ok p \<Rightarrow> {#p#} | _ \<Rightarrow> {#})" "\<not> on_hardware (begin_handler r)"
  by (auto simp: begin_handler_def split: result.splits refusal.splits)

lemma after_read_held:
  "after_read L hash p st = Some ph \<Longrightarrow> held ph = {#p#} \<and> \<not> on_hardware ph"
  by (auto simp: after_read_def split: read_state.splits request.splits)

lemma balanced_log [simp]:
  "balanced clock (s\<lparr>log := l\<rparr>) = balanced clock s" "balanced clock (s\<lparr>errors := n\<rparr>) = balanced clock s"
  "balanced clock (record_event ev s) = balanced clock s"
  by (simp_all add: balanced_def permits_def hardware_permits_def)

text \<open>A handler goes on with the permits it has.\<close>

lemma balanced_replace:
  assumes "balanced clock s" and "(conn, old) \<in># handlers s"
    and "held new = held old" and "on_hardware new = on_hardware old"
  shows "balanced clock (replace_handler conn old new s)"
proof -
  obtain H where "handlers s = add_mset (conn, old) H" using assms(2) by (metis multi_member_split)
  then show ?thesis
    using assms
    by (cases "on_hardware old") (simp_all add: balanced_def permits_def hardware_permits_def replace_handler_def)
qed

text \<open>A handler returns and gives its permits back.\<close>

lemma balanced_drop:
  assumes "balanced clock s" and "(conn, old) \<in># handlers s"
    and "held old = (case permit of Some p \<Rightarrow> {#p#} | None \<Rightarrow> {#})" and "on_hardware old = hw"
  shows "balanced clock (drop_permits permit hw (remove_handler conn old s))"
proof -
  obtain H where H: "handlers s = add_mset (conn, old) H" using assms(2) by (metis multi_member_split)
  let ?held = "sum_mset (image_mset (\<lambda>(conn, ph). held ph) H)"
  obtain h where h: "limiter_run (new_limiter 10 3000000000 2) clock (limits s) (held old + ?held) h"
    using assms(1) by (auto simp: balanced_def permits_def H)
  have "\<exists>h. limiter_run (new_limiter 10 3000000000 2) clock
      (case permit of Some p \<Rightarrow> release p (limits s) | None \<Rightarrow> limits s) ?held h"
  proof (cases permit)
    case (Some p)
    then show ?thesis using limiter_run.give_back [OF h, of p] assms(3) by auto
  qed (use h assms(3) in auto)
  moreover have "hardware_admission.accounted (if hw then add_permit (hardware s) else hardware s)
      (replicate_mset (size (filter_mset (\<lambda>(conn, ph). on_hardware ph) H)) ())"
    using assms(1,4) hardware_admission.accounted_release [of "hardware s" "replicate_mset (hardware_permits s) ()" "()"]
    by (auto simp: balanced_def hardware_permits_def H)
  ultimately show ?thesis
    by (cases permit) (auto simp: balanced_def permits_def hardware_permits_def drop_permits_def remove_handler_def H)
qed

text \<open>A connection asks the limiter.\<close>

lemma balanced_admit:
  assumes "balanced clock s" and "(conn, Accepted ip) \<in># handlers s" and "clock \<le> now"
    and "acquire now ip (limits s) = (r, L)"
  shows "balanced now (replace_handler conn (Accepted ip) (begin_handler r) (s\<lparr>limits := L\<rparr>))"
proof -
  obtain H where H: "handlers s = add_mset (conn, Accepted ip) H" using assms(2) by (metis multi_member_split)
  obtain h where h: "limiter_run (new_limiter 10 3000000000 2) clock (limits s) (permits s) h"
    using assms(1) by (auto simp: balanced_def)
  have "\<exists>h. limiter_run (new_limiter 10 3000000000 2) now L (held (begin_handler r) + permits s) h"
  proof (cases r)
    case (Ok p)
    then have "acquire now ip (limits s) = (Ok p, L)" using assms(4) by simp
    from limiter_run.admit [OF h assms(3) this] show ?thesis by (auto simp: Ok begin_handler_held)
  next
    case (Err e)
    then have "acquire now ip (limits s) = (Err e, L)" using assms(4) by simp
    from limiter_run.refuse [OF h assms(3) this] show ?thesis by (auto simp: Err begin_handler_held)
  next
    case Panic
    then show ?thesis using acquire_active(2) [of now ip "limits s"] assms(4) by simp
  qed
  then show ?thesis
    using assms(1) H
    by (simp add: balanced_def permits_def hardware_permits_def replace_handler_def begin_handler_held)
qed

lemma balanced_handler_step:
  assumes "handler_step E hash c c'" and "balanced (fst c) (snd c)"
  shows "balanced (fst c') (snd c')"
  using assms
proof (cases rule: handler_step.cases)
  case (admit conn ip s clock now r L)
  then show ?thesis using assms(2) by (simp add: balanced_admit)
next
  case (read conn p buf s r ph clock)
  then show ?thesis using assms(2) after_read_held [OF read(4)] by (simp add: balanced_replace)
next
  case (quit conn p buf s r clock)
  then show ?thesis using assms(2) by (simp add: balanced_drop)
next
  case (queue conn p n d s u taken clock)
  then obtain H where H: "handlers s = add_mset (conn, Requesting p n d) H" by (metis multi_member_split)
  have "hardware_admission.accounted taken (add_mset u (replicate_mset (hardware_permits s) ()))"
    using hardware_admission.accounted_admit [OF _ queue(4)] assms(2) queue(1) by (simp add: balanced_def)
  then show ?thesis
    using assms(2) queue(1,2) by (simp add: balanced_def permits_def hardware_permits_def replace_handler_def H)
next
  case (busy conn p n d s e taken clock)
  then have "hardware_admission.accounted taken (replicate_mset (hardware_permits s) ())"
    using hardware_admission.accounted_refuse [OF _ busy(4)] assms(2) by (simp add: balanced_def)
  moreover have "balanced clock (replace_handler conn (Requesting p n d) (Replying (Some p) False 503 busy_body) s)"
    using assms(2) busy(1,3) by (simp add: balanced_replace)
  ultimately show ?thesis
    using assms(2) busy(1,2) by (simp add: balanced_def permits_def hardware_permits_def replace_handler_def)
next
  case (report conn p n d s status body t' clock)
  then show ?thesis using assms(2) by (simp add: balanced_replace)
next
  case (lost conn permit hw status body s clock)
  then show ?thesis using assms(2) by (simp add: balanced_drop)
next
  case (reply conn permit hw status body s clock)
  then show ?thesis using assms(2) by (simp add: balanced_drop)
qed

lemma balanced_step:
  assumes "server_step E hash c c'" and "balanced (fst c) (snd c)"
  shows "balanced (fst c') (snd c')"
  using assms
proof (cases rule: server_step.cases)
  case (accept s outcome n t' clock)
  then show ?thesis
    using assms(2)
    by (auto simp: balanced_def permits_def hardware_permits_def add_handler_def split: accept_outcome.split)
qed (simp add: balanced_handler_step)

lemma balanced_serving: "serving E hash t c \<Longrightarrow> balanced (fst c) (snd c)"
proof (induction rule: serving.induct)
  case start
  show ?case
    using limiter_run.start [of "new_limiter 10 3000000000 2"]
    by (auto simp: balanced_def new_server_def permits_def hardware_permits_def hardware_admission.accounted_def)
qed (rule balanced_step)

section \<open>Binding\<close>

text \<open>What was read on a connection, in order.\<close>

fun reads :: "nat \<Rightarrow> trace \<Rightarrow> stream_read list" where
  "reads conn [] = []"
| "reads conn (ev # t) =
     (case ev of Http_Read c r \<Rightarrow> if c = conn then reads conn t @ [r] else reads conn t | _ \<Rightarrow> reads conn t)"

text \<open>The request that was read on the connection asks for a report with this nonce.\<close>

definition requested :: "trace \<Rightarrow> nat \<Rightarrow> bytes \<Rightarrow> bool" where
  "requested t conn nonce \<longleftrightarrow>
     (\<exists>buf. read_loop [] (reads conn t) = Complete buf \<and> parse_request buf = Attest nonce)"

text \<open>The report data belongs to the nonce of the connection's request, which passes the check.\<close>

definition asked :: "crypto_lib \<Rightarrow> bytes \<Rightarrow> trace \<Rightarrow> nat \<Rightarrow> bytes \<Rightarrow> bytes \<Rightarrow> bool" where
  "asked L hash t conn nonce d \<longleftrightarrow>
     requested t conn nonce \<and> valid_nonce nonce \<and> report_data L hash nonce = Some d"

text \<open>The answer built from what the hardware returned for the report data after \<open>earlier\<close>.\<close>

definition hardware_body :: "env \<Rightarrow> bytes \<Rightarrow> bytes \<Rightarrow> bytes \<Rightarrow> trace \<Rightarrow> bytes" where
  "hardware_body E hash nonce d earlier =
     report_body (lit ''amd-sev-snp'') nonce hash (base16_lower_encode (lib E) d)
       (base64url_encode (lib E) (take 1184 (response_buffer (ioctl_out (os E) earlier (report_request d)))))"

text \<open>
  The body is what the hardware returned for the nonce of the request read on the connection, in a call
  made after that request was read.
\<close>

definition attested :: "env \<Rightarrow> bytes \<Rightarrow> trace \<Rightarrow> nat \<Rightarrow> bytes \<Rightarrow> bool" where
  "attested E hash t conn body \<longleftrightarrow>
     (\<exists>nonce d later earlier. t = later @ Ioctl SNP_GET_REPORT (report_request d) # earlier \<and>
        ioctl_ok (os E) earlier \<and> asked (lib E) hash earlier conn nonce d \<and>
        body = hardware_body E hash nonce d earlier)"

lemma attested_later: "attested E hash t conn body \<Longrightarrow> attested E hash (p @ t) conn body"
  unfolding attested_def by (metis append.assoc)

lemma reads_append: "reads conn (p @ t) = reads conn t @ reads conn p"
  by (induction p) (simp_all split: event.split)

lemma reads_other: "\<forall>r. Http_Read conn r \<notin> set p \<Longrightarrow> reads conn p = []"
  by (induction p) (auto split: event.split)

lemma read_loop_append:
  "read_loop buf (xs @ ys) = (case read_loop buf xs of Reading buf' \<Rightarrow> read_loop buf' ys | st \<Rightarrow> st)"
  by (induction xs arbitrary: buf) (auto split: read_state.split)

lemma requested_later: "requested t conn nonce \<Longrightarrow> requested (p @ t) conn nonce"
  by (auto simp: requested_def reads_append read_loop_append)

lemma asked_later: "asked L hash t conn nonce d \<Longrightarrow> asked L hash (p @ t) conn nonce d"
  by (auto simp: asked_def requested_later)

text \<open>
  A handler is where the reads on its connection have taken it, and its answer is bound; an event is
  bound by the trace before it.
\<close>

fun bound_phase :: "env \<Rightarrow> bytes \<Rightarrow> trace \<Rightarrow> nat \<Rightarrow> phase \<Rightarrow> bool" where
  "bound_phase E hash t conn (Accepted ip) = (reads conn t = [])"
| "bound_phase E hash t conn (Reading_Request p buf) = (read_loop [] (reads conn t) = Reading buf)"
| "bound_phase E hash t conn (Requesting p nonce d) = asked (lib E) hash t conn nonce d"
| "bound_phase E hash t conn (Reporting p nonce d) = asked (lib E) hash t conn nonce d"
| "bound_phase E hash t conn (Replying permit hw status body) = (status = 200 \<longrightarrow> attested E hash t conn body)"

fun bound_event :: "env \<Rightarrow> bytes \<Rightarrow> trace \<Rightarrow> event \<Rightarrow> bool" where
  "bound_event E hash t (Ioctl req arg) =
     (req = SNP_GET_REPORT \<longrightarrow> (\<exists>conn nonce d. asked (lib E) hash t conn nonce d \<and> arg = report_request d))"
| "bound_event E hash t (Http_Reply conn bytes) =
     (\<exists>status body. bytes = http_response status content_json body \<and>
        (status = 200 \<longrightarrow> attested E hash t conn body))"
| "bound_event E hash t _ = True"

fun bound_trace :: "env \<Rightarrow> bytes \<Rightarrow> trace \<Rightarrow> bool" where
  "bound_trace E hash [] = True"
| "bound_trace E hash (ev # t) \<longleftrightarrow> bound_event E hash t ev \<and> bound_trace E hash t"

lemma bound_traceD: "bound_trace E hash (p @ ev # t) \<Longrightarrow> bound_event E hash t ev"
  by (induction p) auto

lemma bound_phase_later:
  assumes "bound_phase E hash t conn ph" and "\<forall>r. Http_Read conn r \<notin> set p"
  shows "bound_phase E hash (p @ t) conn ph"
  using assms by (cases ph) (auto simp: reads_append reads_other intro: attested_later asked_later)

text \<open>Of the handlers, the number of connections and the log: each connection has one handler at most.\<close>

definition bound_parts :: "env \<Rightarrow> bytes \<Rightarrow> (nat \<times> phase) multiset \<Rightarrow> nat \<Rightarrow> trace \<Rightarrow> bool" where
  "bound_parts E hash H n t \<longleftrightarrow>
     (\<forall>(conn, ph)\<in>#H. bound_phase E hash t conn ph \<and> conn < n) \<and>
     (\<forall>conn. count (image_mset fst H) conn \<le> 1) \<and> (\<forall>conn\<ge>n. reads conn t = []) \<and> bound_trace E hash t"

text \<open>Events of one connection.\<close>

definition reads_only :: "nat \<Rightarrow> trace \<Rightarrow> bool" where
  "reads_only conn p \<longleftrightarrow> (\<forall>c r. Http_Read c r \<in> set p \<longrightarrow> c = conn)"

lemma bound_rest:
  assumes "bound_parts E hash (add_mset (conn, old) H) n t"
    and "bound_trace E hash (p @ t)" and "reads_only conn p"
  shows "bound_parts E hash H n (p @ t)"
proof -
  have "count (image_mset fst H) conn = 0"
    using assms(1) unfolding bound_parts_def by (auto dest!: spec [of _ conn])
  then have other: "c \<noteq> conn" if "(c, ph) \<in># H" for c ph
    using that by (force simp: count_eq_zero_iff)
  have conn: "conn < n" using assms(1) by (auto simp: bound_parts_def)
  have "bound_phase E hash (p @ t) c ph \<and> c < n" if "(c, ph) \<in># H" for c ph
    using assms(1,3) other [OF that] that
    by (auto simp: bound_parts_def reads_only_def intro!: bound_phase_later)
  moreover have "count (image_mset fst H) c \<le> 1" for c
    using assms(1) le_trans [of "count (image_mset fst H) c" "count (image_mset fst (add_mset (conn, old) H)) c" 1]
    by (auto simp: bound_parts_def)
  moreover have "reads c (p @ t) = []" if "n \<le> c" for c
    using assms(1,3) that conn by (auto simp: bound_parts_def reads_append reads_only_def intro!: reads_other)
  ultimately show ?thesis using assms(2) by (auto simp: bound_parts_def)
qed

lemma bound_go:
  assumes "bound_parts E hash (add_mset (conn, old) H) n t"
    and "bound_trace E hash (p @ t)" and "reads_only conn p" and "bound_phase E hash (p @ t) conn new"
  shows "bound_parts E hash (add_mset (conn, new) H) n (p @ t)"
  using bound_rest [OF assms(1-3)] assms(1,4) by (auto simp: bound_parts_def)

lemma bound_new:
  assumes "bound_parts E hash H n t"
  shows "bound_parts E hash (add_mset (n, Accepted ip) H) (Suc n) t"
proof -
  have "(n, ph) \<notin># H" for ph using assms by (auto simp: bound_parts_def)
  then have "count (image_mset fst H) n = 0" by (auto simp: count_eq_zero_iff)
  then show ?thesis using assms by (auto simp: bound_parts_def)
qed

abbreviation bound_server :: "env \<Rightarrow> bytes \<Rightarrow> server_state \<Rightarrow> bool" where
  "bound_server E hash s \<equiv> bound_parts E hash (handlers s) (connections s) (log s)"

lemma parse_request_nonce: "parse_request buf = Attest n \<Longrightarrow> valid_nonce n"
  by (auto simp: parse_request_def Let_def split: if_splits option.splits)

lemma after_read_bound:
  assumes "bound_phase E hash t conn (Reading_Request p buf)"
    and "after_read (lib E) hash p (read_step buf r) = Some ph"
  shows "bound_phase E hash (Http_Read conn r # t) conn ph"
proof -
  have "read_loop [] (reads conn (Http_Read conn r # t)) = read_step buf r"
    using assms(1) by (simp add: read_loop_append split: read_state.split)
  with assms(2) show ?thesis
    by (auto simp: after_read_def asked_def requested_def parse_request_nonce
        split: read_state.splits request.splits)
qed

lemma begin_handler_bound: "reads conn t = [] \<Longrightarrow> bound_phase E hash t conn (begin_handler r)"
  by (auto simp: begin_handler_def split: result.splits refusal.splits)

text \<open>Neither an accept nor its error handling reads, asks the hardware or answers.\<close>

fun quiet :: "event \<Rightarrow> bool" where
  "quiet (Mlockall flags) = True"
| "quiet (Tcp_Listen port) = True"
| "quiet (Sleep_Ms n) = True"
| "quiet (Power_Off why) = True"
| "quiet (Exit_Process code) = True"
| "quiet ev = False"

lemma accept_step_quiet: "emits E quiet (accept_step n outcome)"
  unfolding accept_step_def Let_def by (cases outcome; simp; intro conjI impI emits_intro; simp)

lemma quiet_bound: "\<forall>ev\<in>set p. quiet ev \<Longrightarrow> bound_trace E hash (p @ t) = bound_trace E hash t"
proof (induction p)
  case (Cons ev p)
  then show ?case by (cases ev) auto
qed simp

lemma quiet_reads: "\<forall>ev\<in>set p. quiet ev \<Longrightarrow> reads conn p = []"
  by (rule reads_other) auto

lemma bound_quiet:
  assumes "bound_parts E hash H n t" and "\<forall>ev\<in>set p. quiet ev"
  shows "bound_parts E hash H n (p @ t)"
proof -
  have "Http_Read c r \<notin> set p" for c r using assms(2) by auto
  then have "bound_phase E hash (p @ t) c ph" if "bound_phase E hash t c ph" for c ph
    using that by (blast intro: bound_phase_later)
  then show ?thesis
    using assms by (auto simp: bound_parts_def quiet_bound reads_append quiet_reads)
qed

text \<open>A report asks the hardware for its data at most once, and answers 200 with what it returned.\<close>

lemma attest_bound:
  assumes "asked (lib E) hash t conn nonce d" and "bound_trace E hash t"
    and "attest hash nonce d E t = (Ok (status, body) :: ('e, nat \<times> bytes) result, t')"
  shows "\<exists>p. t' = p @ t \<and> reads_only conn p \<and> bound_trace E hash t' \<and> (status = 200 \<longrightarrow> attested E hash t' conn body)"
proof -
  let ?u = "Open_Read dev_path # Path_Exists dev_path # t"
  let ?v = "Ioctl SNP_GET_REPORT (report_request d) # ?u"
  have asked: "asked (lib E) hash ?u conn nonce d"
    using asked_later [OF assms(1), of "[Open_Read dev_path, Path_Exists dev_path]"] by simp
  then have one: "attested E hash ?v conn (hardware_body E hash nonce d ?u)" if "ioctl_ok (os E) ?u"
    unfolding attested_def using that by (metis append_Nil)
  have v: "bound_trace E hash ?v" using asked assms(2) by auto
  have "t' = Path_Exists dev_path # t \<and> status = 503 \<or> t' = ?u \<and> status = 503 \<or>
      t' = ?v \<and> (status = 503 \<or> status = 200 \<and> ioctl_ok (os E) ?u \<and> body = hardware_body E hash nonce d ?u)"
    using assms(3)
    by (auto simp: attest_def get_snp_attestation_report_def bind_eq on_result_eq hardware_body_def
        split: if_splits)
  then have "(t' = Path_Exists dev_path # t \<or> t' = ?u \<or> t' = ?v) \<and> (status = 200 \<longrightarrow> attested E hash t' conn body)"
    using one by auto
  moreover have "\<exists>p. t' = p @ t \<and> reads_only conn p"
    if "t' = Path_Exists dev_path # t \<or> t' = ?u \<or> t' = ?v"
    using that
    by (elim disjE)
      (rule exI [of _ "[Path_Exists dev_path]"] exI [of _ "[Open_Read dev_path, Path_Exists dev_path]"]
        exI [of _ "[Ioctl SNP_GET_REPORT (report_request d), Open_Read dev_path, Path_Exists dev_path]"],
       simp add: reads_only_def)+
  moreover have "bound_trace E hash t'" if "t' = Path_Exists dev_path # t \<or> t' = ?u \<or> t' = ?v"
    using that v assms(2) by (elim disjE) (simp_all only: bound_trace.simps bound_event.simps simp_thms)
  ultimately show ?thesis by blast
qed

lemma bound_handler_step:
  assumes "handler_step E hash c c'" and "bound_server E hash (snd c)"
  shows "bound_server E hash (snd c')"
  using assms(1)
proof (cases rule: handler_step.cases)
  case (admit conn ip s clock now r L)
  then obtain H where H: "handlers s = add_mset (conn, Accepted ip) H" by (metis multi_member_split)
  have "reads conn (log s) = []" "bound_trace E hash (log s)" using assms(2) admit H by (auto simp: bound_parts_def)
  then show ?thesis
    using bound_go [of E hash conn "Accepted ip" H "connections s" "log s" "[]"] assms(2) admit H
    by (simp add: replace_handler_def reads_only_def begin_handler_bound)
next
  case (read conn p buf s r ph clock)
  then obtain H where H: "handlers s = add_mset (conn, Reading_Request p buf) H" by (metis multi_member_split)
  have "bound_phase E hash (log s) conn (Reading_Request p buf)" "bound_trace E hash (log s)"
    using assms(2) read H by (auto simp: bound_parts_def)
  then show ?thesis
    using bound_go [of E hash conn "Reading_Request p buf" H "connections s" "log s" "[Http_Read conn r]"]
      assms(2) read H after_read_bound [of E hash "log s" conn p buf r ph]
    by (simp add: replace_handler_def reads_only_def)
next
  case (quit conn p buf s r clock)
  then obtain H where H: "handlers s = add_mset (conn, Reading_Request p buf) H" by (metis multi_member_split)
  have "bound_trace E hash (log s)" using assms(2) quit H by (auto simp: bound_parts_def)
  then show ?thesis
    using bound_rest [of E hash conn "Reading_Request p buf" H "connections s" "log s" "[Http_Read conn r]"]
      assms(2) quit H
    by (simp add: remove_handler_def drop_permits_def reads_only_def)
next
  case (queue conn p n d s u taken clock)
  then obtain H where H: "handlers s = add_mset (conn, Requesting p n d) H" by (metis multi_member_split)
  have "asked (lib E) hash (log s) conn n d" "bound_trace E hash (log s)"
    using assms(2) queue H by (auto simp: bound_parts_def)
  then show ?thesis
    using bound_go [of E hash conn "Requesting p n d" H "connections s" "log s" "[]" "Reporting p n d"] assms(2) queue H
    by (simp add: replace_handler_def reads_only_def)
next
  case (busy conn p n d s e taken clock)
  then obtain H where H: "handlers s = add_mset (conn, Requesting p n d) H" by (metis multi_member_split)
  have "bound_trace E hash (log s)" using assms(2) busy H by (auto simp: bound_parts_def)
  then show ?thesis
    using bound_go [of E hash conn "Requesting p n d" H "connections s" "log s" "[]"
        "Replying (Some p) False 503 busy_body"] assms(2) busy H
    by (simp add: replace_handler_def reads_only_def)
next
  case (report conn p n d s status body t' clock)
  then obtain H where H: "handlers s = add_mset (conn, Reporting p n d) H" by (metis multi_member_split)
  have "asked (lib E) hash (log s) conn n d" "bound_trace E hash (log s)"
    using assms(2) report H by (auto simp: bound_parts_def)
  from attest_bound [OF this report(4)] obtain q where
    q: "t' = q @ log s" "reads_only conn q" "bound_trace E hash t'" "status = 200 \<longrightarrow> attested E hash t' conn body"
    by blast
  then show ?thesis
    using bound_go [of E hash conn "Reporting p n d" H "connections s" "log s" q
        "Replying (Some p) True status body"] assms(2) report H
    by (simp add: replace_handler_def)
next
  case (lost conn permit hw status body s clock)
  then obtain H where H: "handlers s = add_mset (conn, Replying permit hw status body) H" by (metis multi_member_split)
  have "bound_trace E hash (log s)" using assms(2) lost H by (auto simp: bound_parts_def)
  then show ?thesis
    using bound_rest [of E hash conn "Replying permit hw status body" H "connections s" "log s" "[]"] assms(2) lost H
    by (simp add: remove_handler_def drop_permits_def reads_only_def)
next
  case (reply conn permit hw status body s clock)
  then obtain H where H: "handlers s = add_mset (conn, Replying permit hw status body) H" by (metis multi_member_split)
  have "bound_event E hash (log s) (Http_Reply conn (http_response status content_json body))"
    "bound_trace E hash (log s)"
    using assms(2) reply H by (auto simp: bound_parts_def)
  then show ?thesis
    using bound_rest [of E hash conn "Replying permit hw status body" H "connections s" "log s"
        "[Http_Reply conn (http_response status content_json body)]"] assms(2) reply H
    by (simp add: remove_handler_def drop_permits_def reads_only_def)
qed

lemma bound_step:
  assumes "server_step E hash c c'" and "bound_server E hash (snd c)"
  shows "bound_server E hash (snd c')"
  using assms(1)
proof (cases rule: server_step.cases)
  case (accept s outcome n t' clock)
  obtain p where "t' = p @ log s" "\<forall>ev\<in>set p. quiet ev"
    using emitsD [OF accept_step_quiet accept(3)] by blast
  then have "bound_parts E hash (handlers s) (connections s) t'"
    using assms(2) accept by (simp add: bound_quiet)
  then show ?thesis
    using accept by (simp add: add_handler_def bound_new split: accept_outcome.split)
next
  case handle
  then show ?thesis using assms(2) by (rule bound_handler_step)
qed

lemma bound_serving:
  assumes "serving E hash t c" and "\<forall>ev\<in>set t. quiet ev"
  shows "bound_server E hash (snd c)"
  using assms(1)
proof (induction rule: serving.induct)
  case start
  then show ?case
    using bound_quiet [of E hash "{#}" 0 "[]" t] assms(2) by (simp add: bound_parts_def new_server_def)
qed (rule bound_step)

section \<open>Well-typed handlers\<close>

text \<open>The request buffer is within its bound and has no empty line yet; report data is 64 bytes.\<close>

fun well_typed :: "phase \<Rightarrow> bool" where
  "well_typed (Accepted ip) = True"
| "well_typed (Reading_Request p buf) = (length buf \<le> 8192 \<and> \<not> has_window crlf2 buf)"
| "well_typed (Requesting p nonce d) = (valid_nonce nonce \<and> length d = 64)"
| "well_typed (Reporting p nonce d) = (valid_nonce nonce \<and> length d = 64)"
| "well_typed (Replying permit hw status body) = (status \<in> {200, 400, 429, 503} \<and> (hw \<longrightarrow> permit \<noteq> None))"

lemma report_data_length: "report_data L hash nonce = Some d \<Longrightarrow> length d = 64"
  by (auto simp: report_data_def split: option.splits)

lemma begin_handler_typed: "well_typed (begin_handler r)"
  by (auto simp: begin_handler_def crlf2_def split: result.splits refusal.splits)

lemma read_step_Reading: "read_step buf r = Reading buf' \<Longrightarrow> length buf' \<le> 8192 \<and> \<not> has_window crlf2 buf'"
  by (auto simp: read_step_def Let_def split: stream_read.splits if_splits)

lemma after_read_typed: "after_read L hash p (read_step buf r) = Some ph \<Longrightarrow> well_typed ph"
  by (auto simp: after_read_def parse_request_nonce report_data_length dest: read_step_Reading
      split: read_state.splits request.splits)

lemma attest_status:
  "attest hash nonce d E t = (Ok (status, body) :: ('e, nat \<times> bytes) result, t') \<Longrightarrow> status = 200 \<or> status = 503"
  by (auto simp: attest_def get_snp_attestation_report_def bind_eq on_result_eq split: if_splits)

abbreviation all_typed :: "server_state \<Rightarrow> bool" where
  "all_typed s \<equiv> \<forall>conn ph. (conn, ph) \<in># handlers s \<longrightarrow> well_typed ph"

lemma typed_handler_step:
  assumes "handler_step E hash c c'" and "all_typed (snd c)"
  shows "all_typed (snd c')"
  using assms(1)
proof (cases rule: handler_step.cases)
  case (queue conn p n d s u taken clock)
  then have "well_typed (Requesting p n d)" using assms(2) by (metis snd_conv)
  then show ?thesis using queue assms(2) by (auto simp: replace_handler_def dest: in_diffD)
qed (use assms(2) in \<open>auto simp: replace_handler_def remove_handler_def drop_permits_def begin_handler_typed
      dest!: in_diffD after_read_typed attest_status\<close>)

lemma typed_step:
  assumes "server_step E hash c c'" and "all_typed (snd c)"
  shows "all_typed (snd c')"
  using assms(1)
proof (cases rule: server_step.cases)
  case (accept s outcome n t' clock)
  then show ?thesis using assms(2) by (auto simp: add_handler_def split: accept_outcome.split)
next
  case handle
  then show ?thesis using assms(2) by (rule typed_handler_step)
qed

lemma typed_serving: "serving E hash t c \<Longrightarrow> all_typed (snd c)"
proof (induction rule: serving.induct)
  case start
  show ?case by (simp add: new_server_def)
qed (rule typed_step)

text \<open>What the binding of a request says, in terms of the nonce, the hash and the hardware.\<close>

lemma asked_iff:
  "asked L hash t conn nonce d \<longleftrightarrow> requested t conn nonce \<and> valid_nonce nonce \<and>
     (\<exists>p n. base16_mixed_decode L hash = Some p \<and> base16_mixed_decode L nonce = Some n \<and>
        d = array_bytes (sha512 L (p @ n)))"
  by (auto simp: asked_def report_data_def split: option.splits)

lemma read_back: "read_response (http_response status content_json body) = Some (status, body)"
  using read_response_http [of content_json status body "[]"] by (simp add: content_json_def)

lemma reply_attested:
  assumes "serving E hash t (clock, s)" and "list_all quiet t"
    and "log s = later @ Http_Reply conn bytes # earlier" and "read_response bytes = Some (200, body)"
  shows "attested E hash earlier conn body"
proof -
  have "bound_trace E hash (log s)"
    using bound_serving [OF assms(1)] assms(2) by (auto simp: list_all_iff bound_parts_def)
  then have "bound_event E hash earlier (Http_Reply conn bytes)" using assms(3) bound_traceD by metis
  then obtain status body' where "bytes = http_response status content_json body'"
    and "status = 200 \<longrightarrow> attested E hash earlier conn body'"
    unfolding bound_event.simps by blast
  then show ?thesis using assms(4) by (simp add: read_back)
qed

lemma requested_unique: "requested t conn n \<Longrightarrow> requested t conn n' \<Longrightarrow> n = n'"
  by (auto simp: requested_def)

section \<open>A concrete run\<close>

text \<open>One client asks for a report with the nonce \<open>ab\<close>.\<close>

definition toy_request :: bytes where
  "toy_request = request_line [(lit ''nonce'', lit ''ab'')] @ crlf @ crlf"

lemma toy_request_complete: "read_step [] (Data toy_request) = Complete toy_request"
proof -
  have "has_window crlf2 toy_request"
    unfolding has_window_iff toy_request_def
    by (rule exI [of _ "request_line [(lit ''nonce'', lit ''ab'')]"]) (simp add: crlf_def crlf2_def)
  moreover have "length toy_request \<le> 1024" "toy_request \<noteq> []"
    by (simp_all add: toy_request_def request_line_def query_text_def param_text_def crlf_def)
  ultimately show ?thesis by (simp add: read_step_def Let_def)
qed

lemma toy_request_parsed: "parse_request toy_request = Attest (lit ''ab'')"
  using parse_request_line [of "[(lit ''nonce'', lit ''ab'')]" crlf]
  by (simp add: toy_request_def plain_def valid_nonce_def is_hexdigit_def is_digit_def)

abbreviation toy_server :: env where
  "toy_server \<equiv> toy_env toy_net"

lemma toy_reporting:
  assumes "report_data (lib E) h (lit ''ab'') = Some d"
  shows "\<exists>s. serving E h t (5, s) \<and> hardware s = 1 \<and> log s = Http_Read 0 (Data toy_request) # t \<and>
     handlers s = {#(0, Reporting (Subnet_V4 10 0 0) (lit ''ab'') d)#}"
proof -
  let ?ip = "V4 10 0 0 1" and ?p = "Subnet_V4 10 0 0"
  let ?n = "lit ''ab''"
  obtain L where acq: "acquire 5 ?ip (new_limiter 10 3000000000 2) = (Ok ?p, L)"
    using run_decides [OF limiter_run.start, where now = 5 and mr = 10 and w = 3000000000 and mc = 2 and ip = ?ip]
    by (cases "acquire 5 ?ip (new_limiter 10 3000000000 2)") (simp add: times_def)
  let ?s1 = "(new_server t)\<lparr>connections := 1, handlers := {#(0, Accepted ?ip)#}\<rparr>"
  let ?s2 = "?s1\<lparr>limits := L, handlers := {#(0, Reading_Request ?p [])#}\<rparr>"
  let ?s3 = "?s2\<lparr>handlers := {#(0, Requesting ?p ?n d)#}, log := Http_Read 0 (Data toy_request) # t\<rparr>"
  let ?s4 = "?s3\<lparr>handlers := {#(0, Reporting ?p ?n d)#}, hardware := 1\<rparr>"
  have "accept_step 0 (Incoming ?ip) E t = (Ok 0 :: (unit, u32) result, t)"
    by (simp add: accept_step_def)
  then have "serving E h t (0, ?s1)"
    using serving.step [OF serving.start, OF server_step.accept [where outcome = "Incoming ?ip"]]
    by (fastforce simp: new_server_def add_handler_def)
  moreover have "server_step E h (0, ?s1) (5, ?s2)"
    using handler_step.admit [where s = ?s1 and conn = 0 and ip = ?ip and now = 5 and clock = 0 and r = "Ok ?p" and L = L] acq
    by (simp add: new_server_def replace_handler_def begin_handler_def server_step.handle)
  moreover have "server_step E h (5, ?s2) (5, ?s3)"
    using handler_step.read [where s = ?s2 and conn = 0 and p = ?p and buf = "[]" and r = "Data toy_request"
        and ph = "Requesting ?p ?n d"] assms
    by (simp add: new_server_def replace_handler_def record_event_def toy_request_complete after_read_def
        toy_request_parsed server_step.handle)
  moreover have "server_step E h (5, ?s3) (5, ?s4)"
    using handler_step.queue [where s = ?s3 and conn = 0 and p = ?p and n = ?n and d = d and u = "()" and taken = 1]
    by (simp add: new_server_def replace_handler_def try_acquire_def HARDWARE_QUEUE_def server_step.handle)
  ultimately have "serving E h t (5, ?s4)" by (meson serving.step)
  then show ?thesis by (intro exI [of _ ?s4]) (simp add: new_server_def)
qed

lemma toy_answered:
  assumes "report_data (lib E) h (lit ''ab'') = Some d" and "os E = toy_os" and "list_all quiet t"
  shows "\<exists>s bytes body earlier. serving E h t (5, s) \<and> log s = Http_Reply 0 bytes # earlier \<and>
     read_response bytes = Some (200, body) \<and> requested earlier 0 (lit ''ab'')"
proof -
  let ?p = "Subnet_V4 10 0 0" and ?n = "lit ''ab''"
  obtain s where s: "serving E h t (5, s)" "log s = Http_Read 0 (Data toy_request) # t"
    "handlers s = {#(0, Reporting ?p ?n d)#}"
    using toy_reporting [OF assms(1)] by blast
  have "reads 0 t = []" using assms(3) by (simp add: quiet_reads list_all_iff)
  then have req: "requested (log s) 0 ?n"
    by (simp add: s(2) requested_def toy_request_complete toy_request_parsed)
  obtain body t' p where a: "attest h ?n d E (log s) = (Ok (200, body) :: (unit, nat \<times> bytes) result, t')"
    and p: "t' = p @ log s"
    by (simp add: attest_def get_snp_attestation_report_def bind_eq on_result_eq assms(2) toy_os_def)
  let ?s = "(replace_handler 0 (Reporting ?p ?n d) (Replying (Some ?p) True 200 body) s)\<lparr>log := t'\<rparr>"
  have r: "serving E h t (5, ?s)"
    using serving.step [OF s(1) server_step.handle [OF handler_step.report [OF _ a]], of 0 ?p] s(3) by simp
  have "(0, Replying (Some ?p) True 200 body) \<in># handlers ?s" by (simp add: replace_handler_def)
  note replied = serving.step [OF r server_step.handle [OF handler_step.reply [OF this]]]
  have "\<exists>s'. serving E h t (5, s') \<and> log s' = Http_Reply 0 (http_response 200 content_json body) # t'"
    by (rule exI, rule conjI, rule replied) (simp add: drop_permits_def remove_handler_def)
  moreover have "requested t' 0 ?n" unfolding p by (rule requested_later [OF req])
  ultimately show ?thesis using read_back by blast
qed

lemma toy_report_data: "report_data (lib toy_server) (lit ''cd'') (lit ''ab'') \<noteq> None"
  by (simp add: report_data_def toy_lib_def)

section \<open>Properties\<close>

text \<open>
  C30. The accept loop does what its specification over the whole sequence of outcomes says: as long as no
  ten counted errors (every error but an aborted or interrupted connection and a lack of file
  descriptors) occur between two connections, it goes on, and its counter is the number of counted
  errors since the last connection; with the tenth it powers off, and nothing else ends it.
\<close>

theorem accept_loop_counts_streak:
  "case (accept_loop 0 outcomes E t :: ('e, u32) result \<times> trace) of
      (Ok n, t') \<Rightarrow> steady outcomes \<and> unat n = streak outcomes
    | (Err e, t') \<Rightarrow> False
    | (Panic, t') \<Rightarrow> \<not> steady outcomes \<and> halted E t'"
proof (cases "steady outcomes")
  case True
  then have "unat (of_nat (streak outcomes) :: u32) = streak outcomes"
    using steady_streak [OF True] by (simp add: unat_of_nat)
  with True accept_loop_streak [of outcomes E t, where 'e = 'e] show ?thesis by auto
next
  case False
  with accept_loop_streak [of outcomes E t, where 'e = 'e] show ?thesis by auto
qed

text \<open>
  C4. In every interleaving of the connection handlers, and whatever they read, the permits are exactly
  accounted for: the connections the limiter counts for a subnet are the handlers that hold one of its
  permits, never more than two; the hardware permits taken are the handlers that hold one, never more
  than eight; and no subnet is admitted more than ten times in three seconds.
\<close>

theorem server_permits_bounded:
  assumes "serving E hash t (clock, s)"
  shows "active_of (limits s) k = count (permits s) k \<and> count (permits s) k \<le> 2 \<and>
    hardware s = hardware_permits s \<and> hardware_permits s \<le> 8 \<and>
    (\<exists>h. limiter_run (new_limiter 10 3000000000 2) clock (limits s) (permits s) h \<and>
       length (filter (\<lambda>i. a \<le> i \<and> i \<le> a + 3000000000) (times k h)) \<le> 10)"
proof -
  obtain h where h: "limiter_run (new_limiter 10 3000000000 2) clock (limits s) (permits s) h"
    using balanced_serving [OF assms] by (auto simp: balanced_def)
  have "hardware s = hardware_permits s" "hardware_permits s \<le> HARDWARE_QUEUE"
    using balanced_serving [OF assms] by (simp_all add: balanced_def hardware_accounted_iff)
  then have "hardware s = hardware_permits s" "hardware_permits s \<le> 8" by (simp_all add: HARDWARE_QUEUE_def)
  moreover have "active_of (limits s) k = count (permits s) k" "count (permits s) k \<le> 2"
    using run_accounted [OF h new_limiter_start(2)] run_kept [OF h new_limiter_start(1)]
    by (simp_all add: subnet_admission.accounted_def bound_of_def new_limiter_start)
  ultimately show ?thesis using h run_rate [OF h refl, of a k] by blast
qed

theorem server_permits_bounded_witness:
  "\<exists>s. serving toy_server (lit ''cd'') [] (5, s) \<and> hardware_permits s = 1 \<and>
     active_of (limits s) (Subnet_V4 10 0 0) = 1"
proof -
  obtain s d where s: "serving toy_server (lit ''cd'') [] (5, s)" "hardware s = 1"
    "handlers s = {#(0, Reporting (Subnet_V4 10 0 0) (lit ''ab'') d)#}"
    using toy_reporting toy_report_data by blast
  have "permits s = {#Subnet_V4 10 0 0#}" by (simp add: permits_def s(3))
  with server_permits_bounded [OF s(1), of "Subnet_V4 10 0 0" 0] s(1,2) show ?thesis
    by (intro exI [of _ s]) auto
qed

text \<open>
  C29. In every reachable state each handler's data has its type: a request under way is within its buffer
  of 8192 bytes and not complete, a queued or running one has a nonce of 2 to 256 hexadecimal digits, an
  even number, and report data of 64 bytes, so that what the hardware gets is the 96 bytes of its
  request structure; an answer has one of the four statuses the handler sends; a handler with a hardware
  permit has a subnet permit.
\<close>

theorem handlers_well_typed:
  assumes "serving E hash t (clock, s)"
  shows "\<forall>(conn, ph)\<in>#handlers s.
    case ph of
      Accepted ip \<Rightarrow> True
    | Reading_Request p buf \<Rightarrow> length buf \<le> 8192 \<and> \<not> has_window crlf2 buf
    | Requesting p nonce d \<Rightarrow> valid_nonce nonce \<and> length d = 64
    | Reporting p nonce d \<Rightarrow> valid_nonce nonce \<and> length (report_request d) = 96
    | Replying permit hw status body \<Rightarrow> status \<in> {200, 400, 429, 503} \<and> (hw \<longrightarrow> permit \<noteq> None)"
proof (intro ballI case_prodI2)
  fix h conn ph assume "h \<in># handlers s" and "h = (conn, ph)"
  then have "well_typed ph" using typed_serving [OF assms] by auto
  then show "case ph of
      Accepted ip \<Rightarrow> True
    | Reading_Request p buf \<Rightarrow> length buf \<le> 8192 \<and> \<not> has_window crlf2 buf
    | Requesting p nonce d \<Rightarrow> valid_nonce nonce \<and> length d = 64
    | Reporting p nonce d \<Rightarrow> valid_nonce nonce \<and> length (report_request d) = 96
    | Replying permit hw status body \<Rightarrow> status \<in> {200, 400, 429, 503} \<and> (hw \<longrightarrow> permit \<noteq> None)"
    by (cases ph) (auto simp: report_request_def)
qed

theorem handlers_well_typed_witness:
  "\<exists>s d. serving toy_server (lit ''cd'') [] (5, s) \<and>
     (0, Reporting (Subnet_V4 10 0 0) (lit ''ab'') d) \<in># handlers s \<and> length (report_request d) = 96"
proof -
  obtain s d where s: "serving toy_server (lit ''cd'') [] (5, s)"
    "handlers s = {#(0, Reporting (Subnet_V4 10 0 0) (lit ''ab'') d)#}"
    using toy_reporting toy_report_data by blast
  with handlers_well_typed [OF s(1)] show ?thesis by auto
qed

text \<open>
  C28. The hardware is only asked for reports that bind the server's payload hash to a client's nonce: each
  request to it has as its user data the SHA-512 of the decoded hash followed by the decoded nonce that
  the request read before on some connection asks for, and nothing else. And each answer with status 200
  on a connection carries the start of what the hardware returned, in an earlier call, for the nonce of
  the request that was read on that very connection.
\<close>

theorem reports_bind_hash_and_nonce:
  assumes "serving E hash t (clock, s)" and "list_all quiet t"
  shows "(\<forall>later arg earlier. log s = later @ Ioctl SNP_GET_REPORT arg # earlier \<longrightarrow>
      (\<exists>conn nonce p n. requested earlier conn nonce \<and> valid_nonce nonce \<and>
         base16_mixed_decode (lib E) hash = Some p \<and> base16_mixed_decode (lib E) nonce = Some n \<and>
         arg = array_bytes (sha512 (lib E) (p @ n)) @ replicate 32 0)) \<and>
    (\<forall>later conn bytes earlier body. log s = later @ Http_Reply conn bytes # earlier \<longrightarrow>
      read_response bytes = Some (200, body) \<longrightarrow> attested E hash earlier conn body)"
proof (intro conjI allI impI)
  fix later arg earlier assume log: "log s = later @ Ioctl SNP_GET_REPORT arg # earlier"
  have "bound_trace E hash (log s)"
    using bound_serving [OF assms(1)] assms(2) by (auto simp: list_all_iff bound_parts_def)
  then have "bound_event E hash earlier (Ioctl SNP_GET_REPORT arg)" using log bound_traceD by metis
  then have "\<exists>conn nonce d. asked (lib E) hash earlier conn nonce d \<and> arg = report_request d" by simp
  moreover have "to_le 4 0 @ replicate 28 0 = (replicate 32 0 :: bytes)" by code_simp
  then have "report_request d = d @ replicate 32 0" for d by (simp add: report_request_def)
  ultimately show "\<exists>conn nonce p n. requested earlier conn nonce \<and> valid_nonce nonce \<and>
      base16_mixed_decode (lib E) hash = Some p \<and> base16_mixed_decode (lib E) nonce = Some n \<and>
      arg = array_bytes (sha512 (lib E) (p @ n)) @ replicate 32 0"
    unfolding asked_iff by metis
next
  fix later conn bytes earlier body
  assume "log s = later @ Http_Reply conn bytes # earlier" and "read_response bytes = Some (200, body)"
  then show "attested E hash earlier conn body" by (rule reply_attested [OF assms])
qed

theorem reports_bind_hash_and_nonce_witness:
  "\<exists>s bytes earlier body. serving toy_server (lit ''cd'') [] (5, s) \<and> log s = Http_Reply 0 bytes # earlier \<and>
     read_response bytes = Some (200, body) \<and> requested earlier 0 (lit ''ab'') \<and>
     attested toy_server (lit ''cd'') earlier 0 body"
proof -
  obtain s bytes body earlier where s: "serving toy_server (lit ''cd'') [] (5, s)" "log s = Http_Reply 0 bytes # earlier"
    "read_response bytes = Some (200, body)" "requested earlier 0 (lit ''ab'')"
    using toy_answered [of toy_server "lit ''cd''" _ "[]"] toy_report_data toy_env_simps(3) by auto
  have "list_all quiet []" by simp
  from reports_bind_hash_and_nonce [OF s(1) this] s(2,3) have "attested toy_server (lit ''cd'') earlier 0 body"
    by (metis append_Nil)
  with s show ?thesis by blast
qed

end
