(* ===== verification/Attest_Liveness.thy ===== *)
theory Attest_Liveness
  imports Attest_Safety
begin

text \<open>
  Progress of the attestation server of \<open>src/attestation.rs\<close>: a measure on the handlers that every step
  of a handler lowers and an accept raises by one handler's worth, so that the connections bound the steps
  whatever the clients send (\<open>server_run\<close> counts both), and a step that every handler can take, so that none
  is stuck and all permits come back.
\<close>

section \<open>The measure\<close>

text \<open>How many steps a handler can still take, at most: a byte of the request for each read.\<close>

fun remaining :: "phase \<Rightarrow> nat" where
  "remaining (Accepted ip) = 8197"
| "remaining (Reading_Request p buf) = 8196 - length buf"
| "remaining (Requesting p nonce d) = 3"
| "remaining (Reporting p nonce d) = 2"
| "remaining (Replying permit hw status body) = 1"

definition work :: "server_state \<Rightarrow> nat" where
  "work s = sum_mset (image_mset (\<lambda>(conn, ph). remaining ph) (handlers s))"

lemma begin_handler_remaining: "remaining (begin_handler r) < 8197"
  by (auto simp: begin_handler_def split: result.splits refusal.splits)

lemma read_step_longer: "read_step buf r = Reading buf' \<Longrightarrow> length buf < length buf' \<and> length buf' \<le> 8192"
  by (auto simp: read_step_def Let_def split: stream_read.splits if_splits)

lemma after_read_remaining:
  assumes "after_read L hash p (read_step buf r) = Some ph" and "length buf \<le> 8192"
  shows "remaining ph < 8196 - length buf"
  using assms read_step_longer [of buf r]
  by (auto simp: after_read_def split: read_state.splits request.splits)

lemma work_replace:
  "(conn, old) \<in># handlers s \<Longrightarrow> remaining new < remaining old \<Longrightarrow> work (replace_handler conn old new s) < work s"
  by (auto simp: work_def replace_handler_def dest!: multi_member_split)

lemma work_remove:
  "(conn, old) \<in># handlers s \<Longrightarrow> 0 < remaining old \<Longrightarrow>
     work (drop_permits permit hw (remove_handler conn old s)) < work s"
  by (auto simp: work_def remove_handler_def drop_permits_def dest!: multi_member_split)

lemma work_same [simp]:
  "work (s\<lparr>limits := l\<rparr>) = work s" "work (s\<lparr>hardware := n\<rparr>) = work s" "work (s\<lparr>log := t\<rparr>) = work s"
  "work (s\<lparr>errors := e\<rparr>) = work s" "work (record_event ev s) = work s"
  "work (replace_handler conn old new (s\<lparr>limits := l\<rparr>)) = work (replace_handler conn old new s)"
  by (simp_all add: work_def replace_handler_def)

text \<open>Every step of a handler lowers it; a new connection adds one handler's worth.\<close>

lemma handler_works:
  assumes "handler_step E hash c c'" and "all_typed (snd c)"
  shows "work (snd c') < work (snd c)"
  using assms(1)
proof (cases rule: handler_step.cases)
  case (admit conn ip s clock now r L)
  then show ?thesis using begin_handler_remaining [of r] by (simp add: work_replace)
next
  case (read conn p buf s r ph clock)
  then have "length buf \<le> 8192" using assms(2) by fastforce
  with read show ?thesis by (simp add: work_replace after_read_remaining)
next
  case (quit conn p buf s r clock)
  then have "length buf \<le> 8192" using assms(2) by fastforce
  with quit show ?thesis by (simp add: work_remove)
qed (simp_all add: work_replace work_remove)

lemma add_handler_work: "work (add_handler outcome s) = work s + (if is_incoming outcome then 8197 else 0)"
  by (simp add: add_handler_def work_def is_incoming_def split: accept_outcome.split)

text \<open>A run of the server with the number of connections it accepts and of steps its handlers take.\<close>

inductive server_run :: "env \<Rightarrow> bytes \<Rightarrow> nat \<times> server_state \<Rightarrow> nat \<Rightarrow> nat \<Rightarrow> nat \<times> server_state \<Rightarrow> bool"
  for E hash c where
  stay: "server_run E hash c 0 0 c"
| accept: "server_run E hash c accepted handled (clock, s) \<Longrightarrow>
    accept_step (errors s) outcome E (log s) = (Ok n :: (unit, u32) result, t') \<Longrightarrow>
    server_run E hash c (if is_incoming outcome then Suc accepted else accepted) handled
      (clock, add_handler outcome (s\<lparr>errors := n, log := t'\<rparr>))"
| handle: "server_run E hash c accepted handled c' \<Longrightarrow> handler_step E hash c' c'' \<Longrightarrow>
    server_run E hash c accepted (Suc handled) c''"

lemma run_works:
  "server_run E hash c accepted handled c' \<Longrightarrow> all_typed (snd c) \<Longrightarrow>
     all_typed (snd c') \<and> work (snd c') + handled \<le> work (snd c) + 8197 * accepted"
proof (induction rule: server_run.induct)
  case (accept accepted handled clock s outcome n t')
  have "all_typed (add_handler outcome (s\<lparr>errors := n, log := t'\<rparr>))"
    using typed_step [OF server_step.accept [OF accept.hyps(2)]] accept.IH accept.prems by simp
  then show ?case using accept.IH accept.prems by (simp add: add_handler_work)
next
  case (handle accepted handled c' c'')
  then have IH: "all_typed (snd c')" "work (snd c') + handled \<le> work (snd c) + 8197 * accepted" by blast+
  have "work (snd c'') < work (snd c')" by (rule handler_works [OF handle.hyps(2) IH(1)])
  with IH(2) have "work (snd c'') + Suc handled \<le> work (snd c) + 8197 * accepted" by linarith
  with typed_handler_step [OF handle.hyps(2) IH(1)] show ?case by blast
qed simp

text \<open>It covers every run.\<close>

lemma run_complete:
  "(server_step E hash)\<^sup>*\<^sup>* c c' \<Longrightarrow> \<exists>accepted handled. server_run E hash c accepted handled c'"
proof (induction rule: rtranclp_induct)
  case base
  show ?case using server_run.stay by blast
next
  case (step c' c'')
  then obtain accepted handled where run: "server_run E hash c accepted handled c'" by blast
  from step(2) show ?case
  proof (cases rule: server_step.cases)
    case (accept s outcome n t' clock)
    from server_run.accept [OF run [unfolded accept(1)] accept(3)] show ?thesis unfolding accept(2) by blast
  next
    case handle
    from server_run.handle [OF run this] show ?thesis by blast
  qed
qed

section \<open>Progress\<close>

lemma attest_returns: "\<exists>status body t'. attest hash n d E t = (Ok (status, body) :: ('e, nat \<times> bytes) result, t')"
  by (auto simp: attest_def get_snp_attestation_report_def bind_eq on_result_eq)

text \<open>Every handler has a step of its own.\<close>

lemma handler_steps:
  assumes "(conn, ph) \<in># handlers s"
  shows "\<exists>s'. handler_step E hash (clock, s) (clock, s')"
proof (cases ph)
  case (Accepted ip)
  obtain r L where "acquire clock ip (limits s) = (r, L)" by (metis surj_pair)
  with assms Accepted show ?thesis by (blast intro: handler_step.admit)
next
  case (Reading_Request p buf)
  have "after_read (lib E) hash p (read_step buf Read_Timed_Out) = None"
    by (simp add: read_step_def after_read_def)
  then show ?thesis using assms Reading_Request handler_step.quit by blast
next
  case (Requesting p n d)
  show ?thesis
  proof (cases "hardware s < HARDWARE_QUEUE")
    case True
    then have "try_acquire (hardware s) = (Ok (), hardware s + 1)" by (simp add: try_acquire_def)
    then show ?thesis using assms Requesting handler_step.queue by blast
  next
    case False
    then have "try_acquire (hardware s) = (Err (), hardware s)" by (simp add: try_acquire_def)
    then show ?thesis using assms Requesting handler_step.busy by blast
  qed
next
  case (Reporting p n d)
  obtain status body t' where "attest hash n d E (log s) = (Ok (status, body) :: (unit, nat \<times> bytes) result, t')"
    using attest_returns by blast
  then show ?thesis using assms Reporting handler_step.report by blast
next
  case (Replying permit hw status body)
  then show ?thesis using assms handler_step.reply by blast
qed

lemma serving_steps: "(handler_step E hash)\<^sup>*\<^sup>* c c' \<Longrightarrow> serving E hash t c \<Longrightarrow> serving E hash t c'"
  by (induction rule: rtranclp_induct) (auto intro: serving.step server_step.handle)

lemma drains:
  "all_typed s \<Longrightarrow> \<exists>s'. (handler_step E hash)\<^sup>*\<^sup>* (clock, s) (clock, s') \<and> handlers s' = {#}"
proof (induction "work s" arbitrary: s rule: less_induct)
  case less
  show ?case
  proof (cases "handlers s = {#}")
    case False
    then obtain conn ph where "(conn, ph) \<in># handlers s" by (metis multiset_nonemptyE surj_pair)
    from handler_steps [OF this] obtain s1 where s1: "handler_step E hash (clock, s) (clock, s1)" by blast
    then have "work s1 < work s" "all_typed s1"
      using handler_works [OF s1] typed_handler_step [OF s1] less.prems by simp_all
    from less.hyps [OF this] s1 show ?thesis by (meson converse_rtranclp_into_rtranclp)
  qed blast
qed

lemma work_bound: "work s \<le> 8197 * size (handlers s)"
proof -
  have one: "remaining ph \<le> 8197" for ph by (cases ph) simp_all
  have "sum_mset (image_mset (\<lambda>(conn, ph). remaining ph) M) \<le> 8197 * size M" for M :: "(nat \<times> phase) multiset"
  proof (induction M)
    case (add h M)
    then show ?case using one [of "snd h"] by (simp add: case_prod_beta)
  qed simp
  then show ?thesis by (simp add: work_def)
qed

section \<open>Properties\<close>

text \<open>
  C33. No client can hold a handler for ever, and no permit is lost. From every reachable state, and in
  whatever order the handlers run and whatever the clients send, a run that accepts \<open>a\<close> new connections
  has at most 8197 handler steps for each connection that was open or is accepted; each step of a handler
  lowers a measure, so none repeats; a handler that is left can always take a step; and all of them can
  run to their end without another connection, after which no hardware permit and no permit of any
  subnet is taken.
\<close>

theorem handlers_end:
  assumes "serving E hash t (clock, s)"
  shows "(\<forall>accepted handled c'. server_run E hash (clock, s) accepted handled c' \<longrightarrow>
      handled \<le> 8197 * (size (handlers s) + accepted)) \<and>
    (\<forall>c'. handler_step E hash (clock, s) c' \<longrightarrow> work (snd c') < work s) \<and>
    (handlers s \<noteq> {#} \<longrightarrow> (\<exists>s'. handler_step E hash (clock, s) (clock, s'))) \<and>
    (\<exists>s'. (handler_step E hash)\<^sup>*\<^sup>* (clock, s) (clock, s') \<and> handlers s' = {#} \<and> hardware s' = 0 \<and>
       (\<forall>k. active_of (limits s') k = 0))"
proof -
  have typed: "all_typed s" using typed_serving [OF assms] by simp
  obtain s' where s': "(handler_step E hash)\<^sup>*\<^sup>* (clock, s) (clock, s')" "handlers s' = {#}"
    using drains [OF typed] by blast
  have bal: "balanced clock s'" using balanced_serving [OF serving_steps [OF s'(1) assms]] by simp
  then obtain h where h: "limiter_run (new_limiter 10 3000000000 2) clock (limits s') {#} h"
    by (auto simp: balanced_def permits_def s'(2))
  have "hardware s' = 0" using bal by (simp add: balanced_def hardware_admission.accounted_def hardware_permits_def s'(2))
  moreover have "active_of (limits s') k = 0" for k
    using run_accounted [OF h new_limiter_start(2)] by (simp add: subnet_admission.accounted_def)
  moreover have "handled \<le> 8197 * (size (handlers s) + accepted)"
    if "server_run E hash (clock, s) accepted handled c'" for accepted handled c'
    using run_works [OF that] typed work_bound [of s] by (simp add: algebra_simps)
  moreover have "work (snd c') < work s" if "handler_step E hash (clock, s) c'" for c'
    using handler_works [OF that] typed by simp
  moreover have "\<exists>s'. handler_step E hash (clock, s) (clock, s')" if "handlers s \<noteq> {#}"
    using that handler_steps by (metis multiset_nonemptyE surj_pair)
  ultimately show ?thesis using s' by blast
qed

theorem handlers_end_witness:
  "\<exists>s s'. serving toy_server (lit ''cd'') [] (5, s) \<and> hardware s = 1 \<and>
     (handler_step toy_server (lit ''cd''))\<^sup>*\<^sup>* (5, s) (5, s') \<and> hardware s' = 0 \<and>
     (\<forall>handled c'. server_run toy_server (lit ''cd'') (5, s) 0 handled c' \<longrightarrow> handled \<le> 8197)"
proof -
  obtain s d where s: "serving toy_server (lit ''cd'') [] (5, s)" "hardware s = 1"
    "handlers s = {#(0, Reporting (Subnet_V4 10 0 0) (lit ''ab'') d)#}"
    using toy_reporting toy_report_data by blast
  note ends = handlers_end [OF s(1)]
  have "\<forall>handled c'. server_run toy_server (lit ''cd'') (5, s) 0 handled c' \<longrightarrow> handled \<le> 8197"
    using ends [THEN conjunct1, THEN spec [of _ 0]] by (simp add: s(3))
  with s(1,2) ends show ?thesis by blast
qed

end
