(* ===== verification/Loader.thy ===== *)
theory Loader
  imports Boot_Safety Watchdog Attest_Liveness
begin

text \<open>
  \<open>main\<close> of \<open>src/main.rs\<close>: the program is both PID 1, which boots and then watches its children, and,
  started again with two arguments, the attestation server. The properties span both processes: what
  a client is told by the attestation server is about the payload that PID 1 verified and started, and
  the last act of either process is the call that powers the machine off.
\<close>

section \<open>The program\<close>

text \<open>\<open>mlockall(MCL_CURRENT | MCL_FUTURE | MCL_ONFAULT)\<close>, whose result is dropped.\<close>

definition lock_memory :: "('e, unit) io" where
  "lock_memory = emit (Mlockall (1 OR 2 OR 4))"

definition attestation_mode :: "bytes list \<Rightarrow> bool" where
  "attestation_mode args \<longleftrightarrow> length args = 3 \<and> args ! 1 = lit ''run-attestation-server''"

text \<open>The start of \<open>run_attestation_server\<close>.\<close>

definition listen :: "('e, unit) io" where
  "listen =
     bind (call (Tcp_Listen ATTESTATION_PORT) (\<lambda>E. listen_ok (os E))) (\<lambda>ok.
     or_shutdown Attestation_Bind_Failed ok)"

text \<open>
  A process of the program: stopped with its trace, watching its two children, or serving with the
  hash of its argument.
\<close>

datatype process = Stopped trace | Watching u32 u32 trace | Serving bytes nat server_state

text \<open>A handler panics in a call; the release profile aborts the process then.\<close>

definition handler_panics :: "env \<Rightarrow> bytes \<Rightarrow> nat \<Rightarrow> server_state \<Rightarrow> bool" where
  "handler_panics E hash clock s \<longleftrightarrow>
     (\<exists>conn ip now. (conn, Accepted ip) \<in># handlers s \<and> clock \<le> now \<and> fst (acquire now ip (limits s)) = Panic) \<or>
     (\<exists>conn p n d. (conn, Requesting p n d) \<in># handlers s \<and> fst (try_acquire (hardware s)) = Panic) \<or>
     (\<exists>conn p n d. (conn, Reporting p n d) \<in># handlers s \<and>
        fst (attest hash n d E (log s) :: (unit, nat \<times> bytes) result \<times> trace) = Panic)"

text \<open>
  The states a process started with the arguments \<open>args\<close> reaches. A boot or a start of the server that
  gives no value has stopped; an error of the accept loop would end \<open>run_attestation_server\<close>, after which
  \<open>main\<close> exits with status 0.
\<close>

inductive loader :: "env \<Rightarrow> bytes list \<Rightarrow> process \<Rightarrow> bool" for E args where
  boot_stops: "\<not> attestation_mode args \<Longrightarrow>
    bind lock_memory (\<lambda>_. boot) E [] = (r :: (unit, u32 \<times> u32) result, t) \<Longrightarrow> (\<nexists>pids. r = Ok pids) \<Longrightarrow>
    loader E args (Stopped t)"
| watches: "\<not> attestation_mode args \<Longrightarrow>
    bind lock_memory (\<lambda>_. boot) E [] = (Ok (child, attester) :: (unit, u32 \<times> u32) result, t) \<Longrightarrow>
    watchdog E child attester t (Ok u, t') \<Longrightarrow> loader E args (Watching child attester t')"
| watch_stops: "\<not> attestation_mode args \<Longrightarrow>
    bind lock_memory (\<lambda>_. boot) E [] = (Ok (child, attester) :: (unit, u32 \<times> u32) result, t) \<Longrightarrow>
    watchdog E child attester t (Panic, t') \<Longrightarrow> loader E args (Stopped t')"
| listen_stops: "attestation_mode args \<Longrightarrow>
    bind lock_memory (\<lambda>_. listen) E [] = (l :: (unit, unit) result, t) \<Longrightarrow> l \<noteq> Ok () \<Longrightarrow>
    loader E args (Stopped t)"
| serves: "attestation_mode args \<Longrightarrow>
    bind lock_memory (\<lambda>_. listen) E [] = (Ok () :: (unit, unit) result, t) \<Longrightarrow>
    serving E (args ! 2) t (clock, s) \<Longrightarrow> loader E args (Serving (args ! 2) clock s)"
| accept_stops: "attestation_mode args \<Longrightarrow>
    bind lock_memory (\<lambda>_. listen) E [] = (Ok () :: (unit, unit) result, t) \<Longrightarrow>
    serving E (args ! 2) t (clock, s) \<Longrightarrow>
    accept_step (errors s) outcome E (log s) = (Panic :: (unit, u32) result, t') \<Longrightarrow> loader E args (Stopped t')"
| server_returns: "attestation_mode args \<Longrightarrow>
    bind lock_memory (\<lambda>_. listen) E [] = (Ok () :: (unit, unit) result, t) \<Longrightarrow>
    serving E (args ! 2) t (clock, s) \<Longrightarrow>
    accept_step (errors s) outcome E (log s) = (Err e :: (unit, u32) result, t') \<Longrightarrow>
    loader E args (Stopped (Exit_Process 0 # t'))"
| handler_aborts: "attestation_mode args \<Longrightarrow>
    bind lock_memory (\<lambda>_. listen) E [] = (Ok () :: (unit, unit) result, t) \<Longrightarrow>
    serving E (args ! 2) t (clock, s) \<Longrightarrow> handler_panics E (args ! 2) clock s \<Longrightarrow> loader E args (Stopped (log s))"

inductive_cases loader_servingE: "loader E args (Serving hash clock s)"
inductive_cases loader_stoppedE: "loader E args (Stopped t)"

fun process_trace :: "process \<Rightarrow> trace" where
  "process_trace (Stopped t) = t"
| "process_trace (Watching child attester t) = t"
| "process_trace (Serving hash clock s) = log s"

lemma lock_memory_bind [simp]: "bind lock_memory f E t = f () E (Mlockall (1 OR 2 OR 4) # t)"
  by (simp add: lock_memory_def)

section \<open>The end of a process\<close>







section \<open>The two processes together\<close>

lemma spawns_by_boot:
  assumes "loader E args st" and "\<not> attestation_mode args" and "process_trace st = p @ Spawn c # u"
  shows "authorised E c u"
proof -
  have init: "spawns_authorised E [Mlockall (1 OR 2 OR 4)]" by simp
  note boot = boot_spawns_authorised [OF init, where 'e = unit]
  have watch: "spawns_authorised E t'" if "watchdog E child attester t (r, t')" "spawns_authorised E t"
    for child attester r t t'
  proof -
    note reaches = watchdog_reaches [OF that(1)]
    obtain q where q: "t' = q @ t" "list_all watch_event q"
      using reaches by (auto simp: watchdog_state_def)
    have "no_spawn ev" if "watch_event ev" for ev using that by (cases ev) (simp_all add: no_spawn_def)
    with q that(2) show ?thesis by (simp add: spawns_authorised_no_spawn list_all_iff)
  qed
  have "spawns_authorised E (process_trace st)"
    using assms(1,2) boot by (cases rule: loader.cases) (auto intro: watch)
  then show ?thesis unfolding assms(3) by (rule spawns_authorisedD)
qed

text \<open>A process that was started to serve has the hash of the payload as its argument.\<close>

lemma attester_started:
  assumes "authorised E c u" and "attestation_mode (program c # arguments c)"
  obtains app where "verified E u app" and "payload_file E u = Some app"
    and "(program c # arguments c) ! 2 = payload_hash (lib E) app"
proof -
  obtain app where app: "verified E u app" "payload_file E u = Some app"
    "c = server_command (payload_hash (lib E) app) \<or> (\<exists>exe. c = attestation_command exe (payload_hash (lib E) app))"
    using assms(1) by (auto simp: authorised_def)
  have "c \<noteq> server_command h" for h using assms(2) by (auto simp: attestation_mode_def server_command_def)
  with app(3) obtain exe where "c = attestation_command exe (payload_hash (lib E) app)" by blast
  then have "(program c # arguments c) ! 2 = payload_hash (lib E) app"
    by (simp add: attestation_command_def)
  with app that show thesis by blast
qed

lemma listen_quiet: "bind lock_memory (\<lambda>_. listen) E [] = (Ok () :: (unit, unit) result, t) \<Longrightarrow> list_all quiet t"
  by (simp only: lock_memory_bind) (auto simp: listen_def bind_Ok_iff or_shutdown_eq panic_shutdown_def split: if_splits)

lemma serving_attested:
  assumes "loader E args (Serving hash clock s)" and "log s = later @ Http_Reply conn bytes # before"
    and "read_response bytes = Some (200, body)"
  shows "hash = args ! 2 \<and> attested E hash before conn body"
  using assms(1)
proof (rule loader_servingE)
  fix t assume "hash = args ! 2" and "bind lock_memory (\<lambda>_. listen) E [] = (Ok () :: (unit, unit) result, t)"
    and "serving E (args ! 2) t (clock, s)"
  then show ?thesis using reply_attested [OF _ listen_quiet] assms(2,3) by blast
qed

lemma attested_payload:
  assumes "attested E (payload_hash L app) t conn body" and "lib E = L"
    and "base16_mixed_decode L (payload_hash L app) = Some (array_bytes (sha384 L app))"
  shows "\<exists>nonce n later earlier. requested earlier conn nonce \<and> valid_nonce nonce \<and>
    base16_mixed_decode L nonce = Some n \<and>
    (let d = array_bytes (sha512 L (array_bytes (sha384 L app) @ n)) in
     t = later @ Ioctl SNP_GET_REPORT (report_request d) # earlier \<and>
     body = report_body (lit ''amd-sev-snp'') nonce (payload_hash L app) (base16_lower_encode L d)
       (base64url_encode L (take 1184 (response_buffer (ioctl_out (os E) earlier (report_request d))))))"
  using assms unfolding attested_def asked_iff hardware_body_def Let_def by auto

section \<open>A concrete run of both processes\<close>

lemma toy_watching:
  "\<exists>child attester exe u t. loader toy_boot [lit ''/init''] (Watching child attester t) \<and>
     t = [] @ Spawn (attestation_command exe toy_hash) # u"
proof -
  obtain child attester t where run:
    "boot toy_boot [Mlockall (1 OR 2 OR 4)] = (Ok (child, attester) :: (unit, u32 \<times> u32) result, t)"
    using toy_boot_runs by blast
  have "loader toy_boot [lit ''/init''] (Watching child attester t)"
    by (rule loader.watches [where t = t and u = "()"])
      (simp_all only: lock_memory_bind run watchdog.start, simp add: attestation_mode_def)
  moreover obtain exe u where "t = Spawn (attestation_command exe toy_hash) # u"
    using boot_Ok [OF run] by (auto simp: toy_boot_checks(1))
  ultimately show ?thesis by auto
qed

definition toy_attester :: env where
  "toy_attester = (toy_env toy_net)\<lparr>lib := lib toy_boot\<rparr>"

lemma toy_attester_serves:
  "\<exists>s bytes body before. loader toy_attester [exe, lit ''run-attestation-server'', toy_hash] (Serving toy_hash 5 s) \<and>
     log s = [] @ Http_Reply 0 bytes # before \<and> read_response bytes = Some (200, body) \<and>
     requested before 0 (lit ''ab'')"
proof -
  let ?E = toy_attester and ?t = "[Tcp_Listen ATTESTATION_PORT, Mlockall (1 OR 2 OR 4)]"
  have listen: "bind lock_memory (\<lambda>_. listen) ?E [] = (Ok () :: (unit, unit) result, ?t)"
    by (simp only: lock_memory_bind) (simp add: listen_def bind_eq or_shutdown_eq toy_attester_def toy_os_def)
  have "hex_value 0x61 = Some 10" "hex_value 0x62 = Some 11" by (simp_all add: hex_value_def)
  then have "hex_decode (lit ''ab'') = Some [of_nat (16 * 10 + 11)]" by simp
  moreover have "hex_decode toy_hash \<noteq> None"
    using hex_decode_encode [of "array_bytes (0 :: 384 word)"] toy_boot_checks(1)
    by (simp add: payload_hash_def toy_boot_def)
  ultimately obtain d where "report_data (lib ?E) toy_hash (lit ''ab'') = Some d"
    by (auto simp: report_data_def toy_attester_def toy_boot_def)
  moreover have "os ?E = toy_os" by (simp add: toy_attester_def)
  moreover have "list_all quiet ?t" by simp
  ultimately obtain s bytes body before where s: "serving ?E toy_hash ?t (5, s)" "log s = Http_Reply 0 bytes # before"
    "read_response bytes = Some (200, body)" "requested before 0 (lit ''ab'')"
    using toy_answered by blast
  have "loader ?E [exe, lit ''run-attestation-server'', toy_hash] (Serving toy_hash 5 s)"
    using loader.serves [OF _ listen, of "[exe, lit ''run-attestation-server'', toy_hash]" 5 s] s(1)
    by (simp add: attestation_mode_def)
  with s show ?thesis by auto
qed

section \<open>Properties\<close>

text \<open>
  C3. Attestation tells the truth about what runs. When PID 1, in any environment, has started a process
  as its attestation server, and that process, in an environment of its own, answers on a connection with
  status 200, then the answer is about the payload that was verified, that its file held when the
  attestation server was started and that the server process runs, and about the nonce of the very request
  that was read on that connection: after that request the report was requested from the hardware with
  the SHA-512 of the payload's SHA-384 and the nonce, and the answer holds that nonce, the payload's
  hash, the report data and the start of what the hardware returned. The hypothesis about the library is
  that decoding undoes encoding.
\<close>

theorem attestation_tells_payload:
  assumes "loader E args st" and "\<not> attestation_mode args" and "process_trace st = p @ Spawn c # u"
    and "attestation_mode (program c # arguments c)"
    and "loader E' (program c # arguments c) (Serving hash clock s)" and "lib E' = lib E"
    and "log s = after @ Http_Reply conn bytes # before" and "read_response bytes = Some (200, body)"
    and "\<forall>x. base16_mixed_decode (lib E) (base16_lower_encode (lib E) x) = Some x"
  shows "\<exists>app. verified E u app \<and> payload_file E u = Some app \<and>
    (\<exists>nonce n later earlier. requested earlier conn nonce \<and> valid_nonce nonce \<and>
      base16_mixed_decode (lib E) nonce = Some n \<and>
      (let d = array_bytes (sha512 (lib E) (array_bytes (sha384 (lib E) app) @ n)) in
       before = later @ Ioctl SNP_GET_REPORT (report_request d) # earlier \<and>
       body = report_body (lit ''amd-sev-snp'') nonce (payload_hash (lib E) app) (base16_lower_encode (lib E) d)
         (base64url_encode (lib E) (take 1184 (response_buffer (ioctl_out (os E') earlier (report_request d)))))))"
proof -
  obtain app where app: "verified E u app" "payload_file E u = Some app"
    "(program c # arguments c) ! 2 = payload_hash (lib E) app"
    using attester_started [OF spawns_by_boot [OF assms(1-3)] assms(4)] by blast
  have "attested E' (payload_hash (lib E) app) before conn body"
    using serving_attested [OF assms(5,7,8)] unfolding app(3) by blast
  moreover have "base16_mixed_decode (lib E) (payload_hash (lib E) app) = Some (array_bytes (sha384 (lib E) app))"
    unfolding payload_hash_def using assms(9) by blast
  ultimately show ?thesis using app(1,2) attested_payload [OF _ assms(6)] by blast
qed

theorem attestation_tells_payload_witness:
  "\<exists>child attester exe u s bytes before app d report.
     loader toy_boot [lit ''/init''] (Watching child attester (Spawn (attestation_command exe toy_hash) # u)) \<and>
     loader toy_attester (exe # arguments (attestation_command exe toy_hash)) (Serving toy_hash 5 s) \<and>
     log s = Http_Reply 0 bytes # before \<and> requested before 0 (lit ''ab'') \<and>
     verified toy_boot u app \<and> payload_file toy_boot u = Some app \<and>
     read_response bytes =
       Some (200, report_body (lit ''amd-sev-snp'') (lit ''ab'') (payload_hash (lib toy_boot) app) d report)"
proof -
  obtain child attester exe u t where w: "loader toy_boot [lit ''/init''] (Watching child attester t)"
    "t = [] @ Spawn (attestation_command exe toy_hash) # u"
    using toy_watching by blast
  have c: "program (attestation_command exe toy_hash) # arguments (attestation_command exe toy_hash) =
      [exe, lit ''run-attestation-server'', toy_hash]"
    by (simp add: attestation_command_def)
  obtain s bytes body before where s: "loader toy_attester [exe, lit ''run-attestation-server'', toy_hash] (Serving toy_hash 5 s)"
    "log s = [] @ Http_Reply 0 bytes # before" "read_response bytes = Some (200, body)" "requested before 0 (lit ''ab'')"
    using toy_attester_serves by blast
  have m: "\<not> attestation_mode [lit ''/init'']" "attestation_mode [exe, lit ''run-attestation-server'', toy_hash]"
    by (simp_all add: attestation_mode_def)
  have t: "process_trace (Watching child attester t) = [] @ Spawn (attestation_command exe toy_hash) # u"
    using w(2) by simp
  have l: "lib toy_attester = lib toy_boot" by (simp add: toy_attester_def)
  have h: "\<forall>x. base16_mixed_decode (lib toy_boot) (base16_lower_encode (lib toy_boot) x) = Some x"
    by (simp add: toy_boot_def hex_decode_encode)
  obtain app nonce d report later q earlier where told: "verified toy_boot u app" "payload_file toy_boot u = Some app"
    "requested earlier 0 nonce" "before = later @ q # earlier"
    "body = report_body (lit ''amd-sev-snp'') nonce (payload_hash (lib toy_boot) app) d report"
    using attestation_tells_payload [OF w(1) m(1) t m(2) [folded c] s(1) [folded c] l s(2,3) h]
    unfolding Let_def by (elim exE conjE) (rule that)
  have "nonce = lit ''ab''"
    using requested_unique [OF requested_later [OF told(3), of "later @ [q]"]] s(4) told(4) by simp
  with told s w c show ?thesis
    by (intro exI conjI) (assumption | simp)+
qed



end
