(* ===== verification/Spec2Isabelle.thy ===== *)
theory Spec2Isabelle
  imports Prelude Rust_Str Config Rt_Message Crypto_Lib World Roughtime Roughtime_Query Http_Date
    Dns_Wire Dnscrypt_Codec Dnscrypt Limiter System Network_Events
    Download Boot Boot_Safety Watchdog Attest_Http Attestation Attest_Safety Attest_Liveness Loader
begin

text \<open>
  A verification of the confidential micro-loader, the first process (PID 1) of an AMD SEV-SNP guest
  without any other system software. It mounts the file systems, hardens the kernel, obtains a secure
  time, downloads a signed payload over TLS, starts it next to an attestation server, and from then on
  watches both: whatever goes wrong ends with the machine powered off. The code is the seven files of
  \<open>src/src\<close>; all of them are modelled.

  \<^bold>\<open>The model.\<close> Pure functions are HOL functions on byte strings (lists of 8-bit words) and words
  of the code's widths; the release build of the program wraps on overflow, and so do words. A value of
  \<open>result\<close> is \<open>Ok\<close>, \<open>Err\<close> or \<open>Panic\<close>; the latter is the end of the process. Everything the code does to
  the outside is an event of a trace, newest first, and an environment \<open>env\<close> answers each call as a
  function of the trace so far: its \<open>net\<close> for the network, its \<open>os\<close> for the kernel and its \<open>lib\<close> for
  third-party libraries. A program is a function of environment and trace (\<open>io\<close> in \<open>World\<close>), composed
  with \<open>bind\<close> and \<open>on_result\<close>. A theorem about all environments is one about every behaviour of networks,
  attackers, kernels and libraries; a theorem that relies on a library function names what it relies on.

  \<^bold>\<open>Groundwork.\<close>
  \<^item> \<open>Prelude\<close>: machine types, results, checked indexing and slicing, integer encodings, the locales of
    codecs. \<open>Rust_Str\<close>: the \<open>str\<close> operations of Rust that the code calls. \<open>Crypto_Lib\<close>: the third-party
    libraries as a record of functions. \<open>Config\<close>: the constants of \<open>config.rs\<close>.
  \<^item> \<open>World\<close>: events, environments, programs, and the predicates the proofs compose along a program:
    \<open>triple\<close> (pre- and postconditions, with one for each outcome), \<open>emits\<close> (which events), \<open>safe\<close>, \<open>completes\<close>
    and \<open>fail_closed\<close> (which outcomes), each with a collection of introduction rules.

  \<^bold>\<open>Time\<close> (\<open>time.rs\<close>).
  \<^item> \<open>Rt_Message\<close>: \<open>RtMessage::parse\<close> and \<open>get\<close>; the parser accepts exactly the encodings of well-formed
    messages. \<open>Roughtime\<close>: \<open>verify_roughtime_response\<close>; a midpoint is accepted exactly when there is the
    evidence the protocol asks for, a hash tree with the nonce as its leaf included, honest servers are
    accepted, nonces are bound.
  \<^item> \<open>Roughtime_Query\<close>: the request, \<open>query_single_roughtime\<close> with its two attempts, \<open>query_roughtime\<close> with
    the median. The concurrent queries share no state and run in sequence in the model.
  \<^item> \<open>Http_Date\<close>: \<open>parse_http_date\<close>, counted against a calendar, and \<open>enforce_time_floor\<close>.

  \<^bold>\<open>Names\<close> (\<open>dns.rs\<close>).
  \<^item> \<open>Dns_Wire\<close>: the query builders and the response parsers, in which every access to the data is checked
    and panics out of range, with an encoding of responses that the parsers invert. \<open>Dnscrypt_Codec\<close>: certificates, packet encryption and padding.
  \<^item> \<open>Dnscrypt\<close>: UDP and TCP transport, \<open>establish_dnscrypt_session\<close>, the cache of sessions, resolution and
    the query of the \<open>Date\<close> header; sessions rest on hard-coded providers, addresses on authenticated
    answers to the very query.

  \<^bold>\<open>Boot\<close> (\<open>system.rs\<close>, \<open>crypto.rs\<close>, \<open>main.rs\<close>).
  \<^item> \<open>System\<close>: mounts, sysctl values, interfaces, the route check, \<open>lockdown_filesystem\<close>; the mount table
    is computed from the trace, starting with the root file system of the initramfs, and gives the flags
    that hold for each file. \<open>Download\<close>: \<open>wait_for_entropy\<close>, \<open>download_with_retry\<close>.
  \<^item> \<open>Boot\<close>: the steps of \<open>main\<close> to the two child processes. \<open>Network_Events\<close>: what the network clients do
    besides their answers. \<open>Boot_Safety\<close>: whenever a process is started, the payload was verified and is
    what its file holds, on locked-down mounts, with the clock set above the floor; the clock is never set
    but for a reason; the boot fails closed; it succeeds exactly for an acceptable payload.
  \<^item> \<open>Watchdog\<close>: the reaper loop at the end of \<open>main\<close>, as a step relation over polls.

  \<^bold>\<open>Attestation\<close> (\<open>attestation.rs\<close>).
  \<^item> \<open>Limiter\<close>: \<open>PerSubnetLimiter\<close> and \<open>SubnetPermit\<close>, through the locale \<open>admission\<close>; its decisions are those
    of a specification over the history, in every interleaving.
  \<^item> \<open>Attest_Http\<close>: requests and answers. \<open>Attestation\<close>: the accept loop, the hardware and the handler. The
    handlers of many connections run concurrently; they share only the limiter, behind its mutex, and the
    semaphore of the hardware, so the server is a step relation (\<open>server_step\<close>): an accept, or a piece of a
    handler between two waits (\<open>handler_step\<close>), in any order. A connection is named by the number of those
    accepted before it, and what is read and answered on it are events with that name, so that an answer
    can be tied to the request of its own client. \<open>Attest_Safety\<close>: permits are exactly accounted for,
    handlers are well typed, reports bind the payload hash and the client's nonce. \<open>Attest_Liveness\<close>: the
    steps of the handlers are bounded by the connections, and all permits come back.
  \<^item> \<open>Loader\<close>: \<open>main\<close> with its two modes. Its theorem \<open>attestation_tells_payload\<close> spans PID 1 and the
    attestation server, two processes with an environment each: what a client is told is about the
    payload that was verified and stored and about its own nonce. A process ends only by the call to power
    off, whatever panics or returns; when that call returns (PID 1 may make it, the attestation server as
    user 65534 may not), it exits with status 1.

  \<^bold>\<open>Loops and bounds.\<close> Loops over data are structural recursion. Retries are recursion over the list of
  attempts: five for a download, two for a Roughtime or DNS query, so nothing runs out of fuel. The loops
  of the code that never end by themselves (\<open>accept\<close>, the watchdog, a handler reading) are relations or
  functions of the sequence of outcomes they see. Downloads are limited to 100 MB, requests to 8192 bytes,
  accept errors to ten in a row, hardware reports to eight at a time, connections to two and requests to
  ten in three seconds per subnet: each is a constant of the model, and the theorems state it.

  \<^bold>\<open>Not modelled.\<close> Text on the console. The unit tests. The allocator. What TLS, the HTTP client, the
  cryptographic primitives and the firmware do inside: they are parameters. The root certificates belong to
  the TLS library. An answer of the attestation server is one event with its whole text, or is lost; an
  answer cut in the middle of its text is not a state of its own. The payload itself is not part of the
  repository.
\<close>

end
